theory Spec2Isabelle
  imports Main "HOL-Library.Word" "HOL-Library.AList"
begin

unbundle bit_operations_syntax

section \<open>Shallow embedding of arm\_bin2elf.py\<close>

text \<open>
  Python integers are unbounded and are modelled as \<^typ>\<open>int\<close>; the source image is a list
  of bytes; the dictionaries \<^verbatim>\<open>po.section_addr\<close> and \<^verbatim>\<open>po.section_size\<close> keep
  their insertion order (the source iterates over them) and are association lists. Every
  exception of the source is a value \<open>Inl e\<close>. Messages written to standard output under
  \<^verbatim>\<open>po.verbose\<close> are not modelled; the warnings written by \<^verbatim>\<open>eprint\<close> are collected
  in a list.
\<close>

datatype error =
    AssertionError
  | EOFError
  | OSError
  | IndexError
  | KeyError
  | ZeroDivisionError
  | ValueError
  | AttributeError

type_synonym byte = "8 word"

subsection \<open>AddressMath: \<^verbatim>\<open>sign_extend\<close> and \<^verbatim>\<open>prel31_to_addr\<close>\<close>

text \<open>
  \<^verbatim>\<open>sign_bit = 1 << (bits - 1)\<close> raises \<^verbatim>\<open>ValueError\<close> for a negative shift count.
\<close>

definition sign_extend :: "int \<Rightarrow> int \<Rightarrow> error + int" where
  "sign_extend v bits =
     (if bits - 1 < 0 then Inl ValueError
      else let sign_bit = push_bit (nat (bits - 1)) (1::int)
           in Inr ((v AND (sign_bit - 1)) - (v AND sign_bit)))"

text \<open>\<^verbatim>\<open>c_uint(x).value\<close> is \<open>x mod 2 ^ 32\<close>.\<close>

definition c_uint :: "int \<Rightarrow> int" where
  "c_uint x = x mod 2 ^ 32"

definition prel31_to_addr :: "int \<Rightarrow> int \<Rightarrow> error + int" where
  "prel31_to_addr ptr refptr =
     (case sign_extend ptr 31 of
        Inl e \<Rightarrow> Inl e
      | Inr offset \<Rightarrow> Inr (c_uint (refptr + offset)))"

subsection \<open>Configuration, dictionaries and the source image\<close>

text \<open>
  The option object \<^verbatim>\<open>po\<close>. A dictionary is an association list in insertion order:
  \<^const>\<open>map_of\<close> is the lookup, \<^const>\<open>AList.update\<close> is the assignment \<^verbatim>\<open>d[k] = v\<close>
  (in place for a key already present, appended for a new one).
\<close>

record options =
  baseaddr :: int
  addrspacelen :: int
  expect_func_align :: int
  expect_sect_align :: int
  section_addr :: "(string \<times> int) list"
  section_size :: "(string \<times> int) list"
  verbose :: int
  dry_run :: bool

text \<open>The messages of \<^verbatim>\<open>eprint\<close>, with the values they are formatted from.\<close>

datatype warning =
    Multiple_Matches int int
  | Real_Section_Not_Found
  | Beyond_Limit int
  | Size_Reduced string int

text \<open>
  \<^verbatim>\<open>fwpartfile.seek(pos, os.SEEK_SET)\<close> followed by \<^verbatim>\<open>read(n)\<close> or \<^verbatim>\<open>readinto\<close> of
  an \<open>n\<close>-byte object: a negative position makes \<^verbatim>\<open>seek\<close> raise \<^verbatim>\<open>OSError\<close>, a position
  past the end reads nothing, the count \<open>- 1\<close> reads up to the end of the file, and a
  count below \<open>- 1\<close> makes \<^verbatim>\<open>read\<close> raise \<^verbatim>\<open>ValueError\<close>.
\<close>

definition file_read :: "byte list \<Rightarrow> int \<Rightarrow> int \<Rightarrow> error + byte list" where
  "file_read fwpartfile pos n =
     (if pos < 0 then Inl OSError
      else if n < - 1 then Inl ValueError
      else if n = - 1 then Inr (drop (nat pos) fwpartfile)
      else Inr (take (nat n) (drop (nat pos) fwpartfile)))"

text \<open>The value of a little-endian \<^verbatim>\<open>c_uint\<close> field.\<close>

definition le_uint :: "byte list \<Rightarrow> int" where
  "le_uint bs = foldr (\<lambda>b acc. uint b + 256 * acc) bs 0"

record ExIdxEntry =
  tboffs :: int
  entry :: int

definition ExIdxEntry_of_bytes :: "byte list \<Rightarrow> ExIdxEntry" where
  "ExIdxEntry_of_bytes buf =
     \<lparr>tboffs = le_uint (take 4 buf), entry = le_uint (take 4 (drop 4 buf))\<rparr>"

subsection \<open>EntryValidator: \<^verbatim>\<open>armfw_is_proper_ARMexidx_entry\<close>\<close>

text \<open>
  The test \<^verbatim>\<open>(v <= memaddr_base) or (v >= memaddr_base+arr_pos) or ((v % func_align) != 0)\<close>,
  which the source writes out twice; \<^verbatim>\<open>or\<close> evaluates the remainder only when the two
  comparisons are false, and the remainder by zero raises.
\<close>

definition not_function_start :: "int \<Rightarrow> int \<Rightarrow> int \<Rightarrow> int \<Rightarrow> error + bool" where
  "not_function_start v memaddr_base arr_pos func_align =
     (if v \<le> memaddr_base \<or> v \<ge> memaddr_base + arr_pos then Inr True
      else if func_align = 0 then Inl ZeroDivisionError
      else Inr (v mod func_align \<noteq> 0))"

definition armfw_is_proper_ARMexidx_entry ::
  "options \<Rightarrow> byte list \<Rightarrow> ExIdxEntry \<Rightarrow> int \<Rightarrow> int \<Rightarrow> int \<Rightarrow> int \<Rightarrow> error + bool" where
  "armfw_is_proper_ARMexidx_entry po fwpartfile eexidx memaddr_base func_align arr_pos ent_pos =
     (if tboffs eexidx = 0 \<or> tboffs eexidx AND 0x80000000 \<noteq> 0 then Inr False
      else case prel31_to_addr (tboffs eexidx) (memaddr_base + ent_pos) of
        Inl e \<Rightarrow> Inl e
      | Inr glob_offs \<Rightarrow>
         (case not_function_start glob_offs memaddr_base arr_pos func_align of
            Inl e \<Rightarrow> Inl e
          | Inr True \<Rightarrow> Inr False
          | Inr False \<Rightarrow>
             if entry eexidx = 0x01 then Inr True
             else if entry eexidx AND 0x80000000 \<noteq> 0 then
               (if entry eexidx AND 0x70000000 \<noteq> 0 then Inr False else Inr True)
             else case prel31_to_addr (entry eexidx) (memaddr_base + ent_pos) of
               Inl e \<Rightarrow> Inl e
             | Inr tbent_offs \<Rightarrow>
                if (tbent_offs \<ge> memaddr_base + arr_pos - expect_sect_align po * 0x10
                      \<and> tbent_offs \<le> memaddr_base + arr_pos - 4)
                   \<or> (tbent_offs < memaddr_base + ent_pos + expect_sect_align po * 0x20
                      \<and> tbent_offs \<ge> memaddr_base + ent_pos + 8)
                then
                  (if tbent_offs mod 4 \<noteq> 0 then Inr False
                   else case file_read fwpartfile (tbent_offs - memaddr_base) 4 of
                     Inl e \<Rightarrow> Inl e
                   | Inr buf \<Rightarrow>
                      if length buf \<noteq> 4 then Inr False
                      else (case not_function_start (le_uint buf) memaddr_base arr_pos func_align of
                              Inl e \<Rightarrow> Inl e
                            | Inr True \<Rightarrow> Inr False
                            | Inr False \<Rightarrow> Inr True))
                else Inr False))"

subsection \<open>ExceptionIndexScanner: \<^verbatim>\<open>armfw_detect_sect_ARMexidx\<close>\<close>

text \<open>
  The inner \<^verbatim>\<open>while\<close>: count the proper entries from \<open>entry_pos\<close> on. The result is
  \<open>(reached_eof, entry_pos, entry_count)\<close> at the \<^verbatim>\<open>break\<close>.
\<close>

function exidx_entries_while ::
  "options \<Rightarrow> byte list \<Rightarrow> int \<Rightarrow> int \<Rightarrow> int \<Rightarrow> int \<Rightarrow> int \<Rightarrow> error + (bool \<times> int \<times> int)" where
  "exidx_entries_while po fwpartfile memaddr_base func_align pos entry_pos entry_count =
     (case file_read fwpartfile entry_pos 8 of
        Inl e \<Rightarrow> Inl e
      | Inr buf \<Rightarrow>
         if length buf \<noteq> 8 then Inr (True, entry_pos, entry_count)
         else (case armfw_is_proper_ARMexidx_entry po fwpartfile (ExIdxEntry_of_bytes buf)
                      memaddr_base func_align pos entry_pos of
                 Inl e \<Rightarrow> Inl e
               | Inr False \<Rightarrow> Inr (False, entry_pos, entry_count)
               | Inr True \<Rightarrow>
                  exidx_entries_while po fwpartfile memaddr_base func_align pos
                    (entry_pos + 8) (entry_count + 1)))"
  by pat_completeness auto

lemma file_read_full:
  assumes "file_read fwpartfile pos n = Inr buf" "int (length buf) = n" "0 < n"
  shows "0 \<le> pos \<and> pos + n \<le> int (length fwpartfile)"
proof -
  from assms(1) have p: "0 \<le> pos"
    by (auto simp: file_read_def split: if_splits)
  with assms(1,3) have "buf = take (nat n) (drop (nat pos) fwpartfile)"
    by (auto simp: file_read_def split: if_splits)
  with assms(2,3) have "nat n \<le> length fwpartfile - nat pos"
    by (simp add: min_def split: if_splits)
  with p assms(3) show ?thesis
    by linarith
qed

termination exidx_entries_while
proof (relation "measure (\<lambda>(po, fwpartfile, memaddr_base, func_align, pos, entry_pos, entry_count).
                    nat (int (length fwpartfile) - entry_pos))", goal_cases)
  case 1
  show ?case by simp
next
  case (2 po fwpartfile memaddr_base func_align pos entry_pos entry_count buf ok)
  from 2(1) 2(2) have "0 \<le> entry_pos \<and> entry_pos + 8 \<le> int (length fwpartfile)"
    by (intro file_read_full [where buf = buf]) simp_all
  then show ?case by simp
qed

declare exidx_entries_while.simps [simp del]

text \<open>
  Lines 201 to 207: the padding check on a nonempty run; the result is the entry count
  after the check.
\<close>

definition exidx_padding_check :: "byte list \<Rightarrow> int \<Rightarrow> int \<Rightarrow> int \<Rightarrow> error + int" where
  "exidx_padding_check fwpartfile sect_align entry_pos entry_count =
     (if entry_count > 0 then
        (if sect_align = 0 then Inl ZeroDivisionError
         else if entry_pos mod sect_align > 0 then
           (case file_read fwpartfile entry_pos (sect_align - entry_pos mod sect_align) of
              Inl e \<Rightarrow> Inl e
            | Inr padding \<Rightarrow>
               (case padding of
                  [] \<Rightarrow> Inl IndexError
                | b # _ \<Rightarrow>
                   if b \<noteq> 0x00 \<or> card (set padding) > 1 then Inr 0 else Inr entry_count))
         else Inr entry_count)
      else Inr entry_count)"

text \<open>
  One round of the outer \<^verbatim>\<open>while\<close> up to the match test: the run at the candidate
  position \<open>pos\<close> and its padding check. The result is \<open>(reached_eof, entry_count)\<close>.
\<close>

definition exidx_candidate ::
  "options \<Rightarrow> byte list \<Rightarrow> int \<Rightarrow> int \<Rightarrow> int \<Rightarrow> int \<Rightarrow> error + (bool \<times> int)" where
  "exidx_candidate po fwpartfile memaddr_base func_align sect_align pos =
     (case exidx_entries_while po fwpartfile memaddr_base func_align pos pos 0 of
        Inl e \<Rightarrow> Inl e
      | Inr (reached_eof, entry_pos, entry_count) \<Rightarrow>
         if reached_eof then Inr (True, entry_count)
         else (case exidx_padding_check fwpartfile sect_align entry_pos entry_count of
                 Inl e \<Rightarrow> Inl e
               | Inr entry_count' \<Rightarrow> Inr (False, entry_count')))"

text \<open>
  The outer \<^verbatim>\<open>while\<close>, with the accumulator \<open>(match_count, match_pos, match_entries)\<close>.
  The assertion in front of the loop makes \<open>sect_align \<ge> 8\<close> throughout; the test is
  repeated in the loop, where the recursion needs it to be well-founded.
\<close>

function armfw_detect_sect_ARMexidx_while ::
  "options \<Rightarrow> byte list \<Rightarrow> int \<Rightarrow> int \<Rightarrow> int \<Rightarrow> int \<Rightarrow> int \<times> int \<times> int
     \<Rightarrow> error + (int \<times> int \<times> int)" where
  "armfw_detect_sect_ARMexidx_while po fwpartfile memaddr_base func_align sect_align pos m =
     (if sect_align < 8 then Inl AssertionError
      else case exidx_candidate po fwpartfile memaddr_base func_align sect_align pos of
        Inl e \<Rightarrow> Inl e
      | Inr (reached_eof, entry_count) \<Rightarrow>
         if reached_eof then Inr m
         else armfw_detect_sect_ARMexidx_while po fwpartfile memaddr_base func_align sect_align
                (pos + sect_align)
                (if entry_count > 0 then (fst m + 1, pos, entry_count) else m))"
  by pat_completeness auto

lemma exidx_entries_while_no_eof:
  "exidx_entries_while po fwpartfile memaddr_base func_align pos entry_pos entry_count
      = Inr (False, entry_pos', entry_count')
   \<Longrightarrow> 0 \<le> entry_pos \<and> entry_pos \<le> entry_pos' \<and> entry_pos' + 8 \<le> int (length fwpartfile)"
proof (induction po fwpartfile memaddr_base func_align pos entry_pos entry_count
        rule: exidx_entries_while.induct)
  case (1 po fwpartfile memaddr_base func_align pos entry_pos entry_count)
  from "1.prems" obtain buf where buf: "file_read fwpartfile entry_pos 8 = Inr buf"
    by (subst (asm) exidx_entries_while.simps) (auto split: sum.splits)
  from "1.prems" buf have len: "length buf = 8"
    by (subst (asm) exidx_entries_while.simps) (auto split: sum.splits if_splits)
  from buf len have rng: "0 \<le> entry_pos \<and> entry_pos + 8 \<le> int (length fwpartfile)"
    by (intro file_read_full [where buf = buf]) simp_all
  from "1.prems" buf len obtain ok where
    ok: "armfw_is_proper_ARMexidx_entry po fwpartfile (ExIdxEntry_of_bytes buf)
           memaddr_base func_align pos entry_pos = Inr ok"
    by (subst (asm) exidx_entries_while.simps) (auto split: sum.splits)
  show ?case
  proof (cases ok)
    case True
    with "1.prems" buf len ok have rec:
      "exidx_entries_while po fwpartfile memaddr_base func_align pos (entry_pos + 8)
         (entry_count + 1) = Inr (False, entry_pos', entry_count')"
      by (subst (asm) exidx_entries_while.simps) simp
    from len have nl: "\<not> length buf \<noteq> 8" by simp
    from True have okT: "ok = True" by simp
    from "1.IH" [OF buf nl ok okT rec] have
      "entry_pos + 8 \<le> entry_pos' \<and> entry_pos' + 8 \<le> int (length fwpartfile)"
      by simp
    with rng show ?thesis by simp
  next
    case False
    with "1.prems" buf len ok have "entry_pos' = entry_pos"
      by (subst (asm) exidx_entries_while.simps) simp
    with rng show ?thesis by simp
  qed
qed

termination armfw_detect_sect_ARMexidx_while
proof (relation "measure (\<lambda>(po, fwpartfile, memaddr_base, func_align, sect_align, pos, m).
                    nat (int (length fwpartfile) - pos))", goal_cases)
  case 1
  show ?case by simp
next
  case (2 po fwpartfile memaddr_base func_align sect_align pos m r reached_eof entry_count)
  from 2(2,3,4) obtain entry_pos n where
    "exidx_entries_while po fwpartfile memaddr_base func_align pos pos 0 = Inr (False, entry_pos, n)"
    by (auto simp: exidx_candidate_def split: sum.splits prod.splits if_splits)
  then have "0 \<le> pos \<and> pos \<le> entry_pos \<and> entry_pos + 8 \<le> int (length fwpartfile)"
    by (rule exidx_entries_while_no_eof)
  with 2(1) show ?case by simp
qed

declare armfw_detect_sect_ARMexidx_while.simps [simp del]

definition armfw_detect_sect_ARMexidx ::
  "options \<Rightarrow> byte list \<Rightarrow> int \<Rightarrow> int \<Rightarrow> int \<Rightarrow> int \<Rightarrow> error + ((int \<times> int) \<times> warning list)" where
  "armfw_detect_sect_ARMexidx po fwpartfile memaddr_base start_pos func_align sect_align =
     (if \<not> sect_align \<ge> 8 then Inl AssertionError
      else case armfw_detect_sect_ARMexidx_while po fwpartfile memaddr_base func_align sect_align
                  start_pos (0, - 1, 0) of
        Inl e \<Rightarrow> Inl e
      | Inr (match_count, match_pos, match_entries) \<Rightarrow>
         let warnings = (if match_count > 1 then [Multiple_Matches match_count sect_align] else [])
         in if match_count < 1 then Inr ((- 1, 0), warnings)
            else Inr ((match_pos, match_entries * 8), warnings))"





subsection \<open>EmptyRegionScanner: \<^verbatim>\<open>armfw_detect_empty_sect_ARMexidx\<close>\<close>

text \<open>
  The loop has no assertion in front of it and does not advance for \<open>sect_align = 0\<close>;
  not returning is the value \<open>None\<close>. The result of the loop is
  \<open>(match_count, match_pos)\<close>.
\<close>

partial_function (option) armfw_detect_empty_sect_ARMexidx_while ::
  "byte list \<Rightarrow> int \<Rightarrow> int \<Rightarrow> int \<Rightarrow> int \<Rightarrow> (error + int \<times> int) option" where
  "armfw_detect_empty_sect_ARMexidx_while fwpartfile sect_align pos match_count match_pos =
     (case file_read fwpartfile pos sect_align of
        Inl e \<Rightarrow> Some (Inl e)
      | Inr buf \<Rightarrow>
         if int (length buf) \<noteq> sect_align then Some (Inr (match_count, match_pos))
         else if 0x00 \<in> set buf \<and> card (set buf) = 1 then
           armfw_detect_empty_sect_ARMexidx_while fwpartfile sect_align (pos + sect_align)
             (match_count + 1) (pos + sect_align)
         else if match_count > 0 then Some (Inr (match_count, match_pos))
         else armfw_detect_empty_sect_ARMexidx_while fwpartfile sect_align (pos + sect_align)
                match_count match_pos)"

declare armfw_detect_empty_sect_ARMexidx_while.simps [code]

definition armfw_detect_empty_sect_ARMexidx ::
  "options \<Rightarrow> byte list \<Rightarrow> int \<Rightarrow> int \<Rightarrow> int \<Rightarrow> int \<Rightarrow> (error + int \<times> int) option" where
  "armfw_detect_empty_sect_ARMexidx po fwpartfile memaddr_base start_pos func_align sect_align =
     (case armfw_detect_empty_sect_ARMexidx_while fwpartfile sect_align start_pos 0 (- 1) of
        None \<Rightarrow> None
      | Some (Inl e) \<Rightarrow> Some (Inl e)
      | Some (Inr (match_count, match_pos)) \<Rightarrow>
         if match_count < 1 then Some (Inr (- 1, 0)) else Some (Inr (match_pos, 0)))"

subsection \<open>SectionLayoutResolver: the anchor and the code region\<close>

text \<open>
  Lines 260 to 271 of \<^verbatim>\<open>armfw_bin2elf_settle_sect_ARMexidx\<close>: the scan at the expected
  alignment, at half of it, and the scan for an empty section. The result is
  \<open>(sect_pos, sect_len)\<close> and the warnings written on the way.
\<close>

definition exidx_locate ::
  "options \<Rightarrow> byte list \<Rightarrow> (error + (int \<times> int) \<times> warning list) option" where
  "exidx_locate po fwpartfile =
     (case armfw_detect_sect_ARMexidx po fwpartfile (baseaddr po) 0 (expect_func_align po)
              (expect_sect_align po) of
        Inl e \<Rightarrow> Some (Inl e)
      | Inr ((sect_pos1, sect_len1), w1) \<Rightarrow>
         (case (if sect_pos1 < 0
                then armfw_detect_sect_ARMexidx po fwpartfile (baseaddr po) 0 (expect_func_align po)
                       (drop_bit 1 (expect_sect_align po))
                else Inr ((sect_pos1, sect_len1), [])) of
            Inl e \<Rightarrow> Some (Inl e)
          | Inr ((sect_pos2, sect_len2), w2) \<Rightarrow>
             if sect_pos2 < 0 then
               (case armfw_detect_empty_sect_ARMexidx po fwpartfile (baseaddr po) 0
                       (expect_func_align po) (expect_sect_align po) of
                  None \<Rightarrow> None
                | Some (Inl e) \<Rightarrow> Some (Inl e)
                | Some (Inr (sect_pos3, sect_len3)) \<Rightarrow>
                   if sect_pos3 < 0 then Some (Inl EOFError)
                   else Some (Inr ((sect_pos3, sect_len3),
                          w1 @ w2 @ (if verbose po > 1 then [Real_Section_Not_Found] else []))))
             else Some (Inr ((sect_pos2, sect_len2), w1 @ w2))))"

text \<open>Lines 276 to 279: the size is set unless the dictionary has one.\<close>

definition set_size_if_absent :: "string \<Rightarrow> int \<Rightarrow> options \<Rightarrow> options" where
  "set_size_if_absent sectname sect_len po =
     (if map_of (section_size po) sectname = None
      then po\<lparr>section_size := AList.update sectname sect_len (section_size po)\<rparr>
      else po)"

definition armfw_bin2elf_settle_sect_ARMexidx ::
  "options \<Rightarrow> byte list \<Rightarrow> (error + options \<times> warning list) option" where
  "armfw_bin2elf_settle_sect_ARMexidx po fwpartfile =
     (case map_of (section_addr po) ''.ARM.exidx'' of
        None \<Rightarrow>
         (case exidx_locate po fwpartfile of
            None \<Rightarrow> None
          | Some (Inl e) \<Rightarrow> Some (Inl e)
          | Some (Inr ((sect_pos, sect_len), ws)) \<Rightarrow>
             Some (Inr (set_size_if_absent ''.ARM.exidx'' sect_len
                          (po\<lparr>section_addr :=
                               AList.update ''.ARM.exidx'' (baseaddr po + sect_pos) (section_addr po)\<rparr>),
                        ws)))
      | Some addr \<Rightarrow>
         Some (Inr (set_size_if_absent ''.ARM.exidx'' (expect_sect_align po) po, [])))"

text \<open>
  \<^verbatim>\<open>armfw_bin2elf_settle_sect_text\<close>; the assertion fails without a settled anchor, and
  \<^verbatim>\<open>EOFError\<close> is the hard error for a code region without room.
\<close>

definition armfw_bin2elf_settle_sect_text :: "options \<Rightarrow> byte list \<Rightarrow> error + options" where
  "armfw_bin2elf_settle_sect_text po fwpartfile =
     (case map_of (section_addr po) ''.ARM.exidx'' of
        None \<Rightarrow> Inl AssertionError
      | Some exidx_addr \<Rightarrow>
         let sect_pos = exidx_addr - baseaddr po in
         (case (if map_of (section_addr po) ''.text'' = None then
                  (if sect_pos > expect_func_align po * 8
                   then Inr (po\<lparr>section_addr :=
                               AList.update ''.text'' (baseaddr po + 0x0) (section_addr po)\<rparr>)
                   else Inl EOFError)
                else Inr po) of
            Inl e \<Rightarrow> Inl e
          | Inr po1 \<Rightarrow>
             if map_of (section_size po1) ''.text'' = None then
               (case map_of (section_addr po1) ''.text'' of
                  None \<Rightarrow> Inl KeyError
                | Some text_addr \<Rightarrow>
                   Inr (po1\<lparr>section_size :=
                          AList.update ''.text'' (sect_pos - (text_addr - baseaddr po1))
                            (section_size po1)\<rparr>))
             else Inr po1))"

subsection \<open>LayoutReconciler\<close>

text \<open>
  \<^verbatim>\<open>armfw_bin2elf_get_sections_order\<close>. The two inner loops over
  \<^verbatim>\<open>po.section_addr.items()\<close> append to the order built so far; the outer loop runs over
  \<^verbatim>\<open>sorted(set(po.section_addr.values()))\<close> and stops at the first address beyond the
  limit.
\<close>

definition order_add_zero_sized :: "options \<Rightarrow> int \<Rightarrow> string list \<Rightarrow> string list" where
  "order_add_zero_sized po sortaddr sections_order =
     foldl (\<lambda>acc (sectname, addr).
              if addr = sortaddr then
                (case map_of (section_size po) sectname of
                   None \<Rightarrow> acc
                 | Some sz \<Rightarrow> if sz < 1 then acc @ [sectname] else acc)
              else acc)
       sections_order (section_addr po)"

definition order_add_remaining :: "options \<Rightarrow> int \<Rightarrow> string list \<Rightarrow> string list" where
  "order_add_remaining po sortaddr sections_order =
     foldl (\<lambda>acc (sectname, addr).
              if addr = sortaddr \<and> sectname \<notin> set acc then acc @ [sectname] else acc)
       sections_order (section_addr po)"

fun get_sections_order_for ::
  "options \<Rightarrow> int \<Rightarrow> int list \<Rightarrow> string list \<Rightarrow> string list \<times> warning list" where
  "get_sections_order_for po addrspace_limit [] sections_order = (sections_order, [])"
| "get_sections_order_for po addrspace_limit (sortaddr # rest) sections_order =
     (if sortaddr > addrspace_limit then (sections_order, [Beyond_Limit sortaddr])
      else get_sections_order_for po addrspace_limit rest
             (order_add_remaining po sortaddr (order_add_zero_sized po sortaddr sections_order)))"

definition armfw_bin2elf_get_sections_order :: "options \<Rightarrow> int \<Rightarrow> string list \<times> warning list" where
  "armfw_bin2elf_get_sections_order po addrspace_limit =
     get_sections_order_for po addrspace_limit (sort (remdups (map snd (section_addr po)))) []"

text \<open>
  \<^verbatim>\<open>armfw_bin2elf_update_sect_sizes\<close>: the loop over \<^verbatim>\<open>reversed(sections_order)\<close> with
  the running \<open>sectaddr_next\<close>. Both assertions on the first \<open>sectpos_delta\<close> test the same
  condition and differ in their message only.
\<close>

fun update_sect_sizes_for ::
  "options \<Rightarrow> string list \<Rightarrow> int \<Rightarrow> int \<Rightarrow> warning list \<Rightarrow> error + options \<times> warning list" where
  "update_sect_sizes_for po [] addrspace_limit sectaddr_next ws = Inr (po, ws)"
| "update_sect_sizes_for po (sectname # rest) addrspace_limit sectaddr_next ws =
     (case map_of (section_addr po) sectname of
        None \<Rightarrow> Inl KeyError
      | Some addr \<Rightarrow>
         let sectpos_delta = sectaddr_next - addr in
         if \<not> sectpos_delta \<ge> 0 then Inl AssertionError
         else
           let sectpos_delta' =
                 (if addr + sectpos_delta > addrspace_limit + 1 - expect_sect_align po
                  then addrspace_limit + 1 - expect_sect_align po - addr
                  else sectpos_delta)
           in
           if \<not> sectpos_delta' \<ge> 0 then Inl AssertionError
           else
             (case map_of (section_size po) sectname of
                Some sz \<Rightarrow>
                 if sz > sectpos_delta' then
                   update_sect_sizes_for
                     (po\<lparr>section_size := AList.update sectname sectpos_delta' (section_size po)\<rparr>)
                     rest addrspace_limit addr (ws @ [Size_Reduced sectname sectpos_delta'])
                 else update_sect_sizes_for po rest addrspace_limit addr ws
              | None \<Rightarrow>
                 update_sect_sizes_for
                   (po\<lparr>section_size := AList.update sectname sectpos_delta' (section_size po)\<rparr>)
                   rest addrspace_limit addr ws))"

definition armfw_bin2elf_update_sect_sizes ::
  "options \<Rightarrow> string list \<Rightarrow> int \<Rightarrow> error + options \<times> warning list" where
  "armfw_bin2elf_update_sect_sizes po sections_order addrspace_limit =
     update_sect_sizes_for po (rev sections_order) addrspace_limit
       (baseaddr po + addrspacelen po + 1) []"

text \<open>
  The space budget of a section at \<open>addr\<close>, as the size pass computes it from the
  running \<open>sectaddr_next\<close>: the gap to \<open>sectaddr_next\<close>, cut at the address space limit
  less one section alignment unit. \<open>sectaddr_next_of\<close> is the value of \<open>sectaddr_next\<close>
  when the section in front of the sections \<open>higher\<close> of the order is processed.
\<close>

definition sect_budget :: "options \<Rightarrow> int \<Rightarrow> int \<Rightarrow> int \<Rightarrow> int" where
  "sect_budget po addrspace_limit sectaddr_next addr =
     min sectaddr_next (addrspace_limit + 1 - expect_sect_align po) - addr"

definition sectaddr_next_of :: "options \<Rightarrow> string list \<Rightarrow> int option" where
  "sectaddr_next_of po higher =
     (case higher of
        [] \<Rightarrow> Some (baseaddr po + addrspacelen po + 1)
      | h # _ \<Rightarrow> map_of (section_addr po) h)"

text \<open>
  \<^verbatim>\<open>armfw_bin2elf_get_sections_align\<close>. Each of the two \<^verbatim>\<open>while\<close> loops halves
  \<open>sect_align\<close> until it divides the value; the remainder by zero raises.
\<close>

function sect_align_while :: "int \<Rightarrow> int \<Rightarrow> error + int" where
  "sect_align_while v sect_align =
     (if sect_align = 0 then Inl ZeroDivisionError
      else if v mod sect_align \<noteq> 0 then sect_align_while v (drop_bit 1 sect_align)
      else Inr sect_align)"
  by pat_completeness auto

termination sect_align_while
proof (relation "measure (\<lambda>(v, sect_align). nat \<bar>sect_align\<bar>)", goal_cases)
  case 1
  show ?case by simp
next
  case (2 v sect_align)
  have "sect_align \<noteq> 1" "sect_align \<noteq> - 1"
    using 2(2) by auto
  with 2(1) have "\<bar>sect_align div 2\<bar> < \<bar>sect_align\<bar>"
    by linarith
  then show ?case
    by (simp add: drop_bit_eq_div)
qed

declare sect_align_while.simps [simp del]

definition section_align :: "options \<Rightarrow> string \<Rightarrow> error + int" where
  "section_align po sectname =
     (case map_of (section_addr po) sectname of
        None \<Rightarrow> Inl KeyError
      | Some addr \<Rightarrow>
         (case sect_align_while addr (push_bit 1 (expect_sect_align po)) of
            Inl e \<Rightarrow> Inl e
          | Inr sect_align \<Rightarrow>
             (case map_of (section_size po) sectname of
                None \<Rightarrow> Inl KeyError
              | Some sz \<Rightarrow> sect_align_while sz sect_align)))"

fun get_sections_align_for ::
  "options \<Rightarrow> string list \<Rightarrow> (string \<times> int) list \<Rightarrow> error + (string \<times> int) list" where
  "get_sections_align_for po [] sections_align = Inr sections_align"
| "get_sections_align_for po (sectname # rest) sections_align =
     (case section_align po sectname of
        Inl e \<Rightarrow> Inl e
      | Inr sect_align \<Rightarrow>
         get_sections_align_for po rest (AList.update sectname sect_align sections_align))"

definition armfw_bin2elf_get_sections_align ::
  "options \<Rightarrow> string list \<Rightarrow> error + (string \<times> int) list" where
  "armfw_bin2elf_get_sections_align po sections_order = get_sections_align_for po sections_order []"

text \<open>\<^verbatim>\<open>armfw_bin2elf_get_sections_pos\<close>: the file position is \<open>address - base\<close>, not below 0.\<close>

fun get_sections_pos_for ::
  "options \<Rightarrow> string list \<Rightarrow> (string \<times> int) list \<Rightarrow> error + (string \<times> int) list" where
  "get_sections_pos_for po [] sections_pos = Inr sections_pos"
| "get_sections_pos_for po (sectname # rest) sections_pos =
     (case map_of (section_addr po) sectname of
        None \<Rightarrow> Inl KeyError
      | Some addr \<Rightarrow>
         let sect_pos = addr - baseaddr po;
             sect_pos' = (if sect_pos < 0 then 0 else sect_pos)
         in get_sections_pos_for po rest (AList.update sectname sect_pos' sections_pos))"

definition armfw_bin2elf_get_sections_pos ::
  "options \<Rightarrow> string list \<Rightarrow> error + (string \<times> int) list" where
  "armfw_bin2elf_get_sections_pos po sections_order = get_sections_pos_for po sections_order []"

subsection \<open>ContainerBuilder: one section of \<^verbatim>\<open>armfw_bin2elf_update_elffile\<close>\<close>

text \<open>
  A section descriptor of the template, with the header fields the source writes. The
  container library (pyelftools with write support) is not part of the repository.
\<close>

record elf_section =
  name :: string
  sh_type :: string
  sh_addr :: int
  sh_addralign :: int
  sh_size :: int
  data :: "byte list"

text \<open>
  Modelled from the spec: the library's \<^verbatim>\<open>set_data\<close>, which is missing from the sources.
  It installs the payload; the source's comment says that the size of a section with data
  follows the data.
\<close>

definition set_data :: "byte list \<Rightarrow> elf_section \<Rightarrow> elf_section" where
  "set_data buf sect = sect\<lparr>data := buf, sh_size := int (length buf)\<rparr>"

text \<open>
  Lines 530 to 542, for the descriptor \<open>sect\<close> found for \<open>sectname\<close>:
  \<^verbatim>\<open>if not data_buf\<close> raises for an empty read.
\<close>

definition update_elffile_section ::
  "options \<Rightarrow> byte list \<Rightarrow> (string \<times> int) list \<Rightarrow> (string \<times> int) list \<Rightarrow> string
     \<Rightarrow> elf_section \<Rightarrow> error + elf_section" where
  "update_elffile_section po fwpartfile sections_pos sections_align sectname sect =
     (case map_of (section_addr po) sectname of
        None \<Rightarrow> Inl KeyError
      | Some addr \<Rightarrow>
         (case map_of sections_align sectname of
            None \<Rightarrow> Inl KeyError
          | Some align \<Rightarrow>
             let sect1 = sect\<lparr>sh_addr := addr, sh_addralign := align\<rparr> in
             (case map_of (section_size po) sectname of
                None \<Rightarrow> Inl KeyError
              | Some sz \<Rightarrow>
                 if sh_type sect1 = ''SHT_NOBITS'' then Inr (sect1\<lparr>sh_size := sz\<rparr>)
                 else if sz \<le> 0 then Inr (set_data [] sect1)
                 else (case map_of sections_pos sectname of
                         None \<Rightarrow> Inl KeyError
                       | Some sect_pos \<Rightarrow>
                          (case file_read fwpartfile sect_pos sz of
                             Inl e \<Rightarrow> Inl e
                           | Inr data_buf \<Rightarrow>
                              if data_buf = [] then Inl EOFError
                              else Inr (set_data data_buf sect1))))))"


subsection \<open>SectionLayoutResolver: the data and the uninitialized regions\<close>

text \<open>
  \<^verbatim>\<open>armfw_bin2elf_settle_sect_data\<close>. \<^verbatim>\<open>sect_align\<close> is 1 in the source, which keeps
  the realignment; \<^verbatim>\<open>fwpartfile.tell()\<close> after the seek to the end is the length of the
  image.
\<close>

definition armfw_bin2elf_settle_sect_data :: "options \<Rightarrow> byte list \<Rightarrow> error + options" where
  "armfw_bin2elf_settle_sect_data po fwpartfile =
     (case map_of (section_addr po) ''.ARM.exidx'' of
        None \<Rightarrow> Inl AssertionError
      | Some exidx_addr \<Rightarrow>
         (case map_of (section_size po) ''.ARM.exidx'' of
            None \<Rightarrow> Inl KeyError
          | Some exidx_len \<Rightarrow>
             let sect_align = 1;
                 (po1, sect_pos) =
                   (case map_of (section_addr po) ''.data'' of
                      None \<Rightarrow>
                       let p = exidx_addr - baseaddr po + exidx_len;
                           p' = (if p mod sect_align \<noteq> 0 then p + (sect_align - p mod sect_align)
                                 else p)
                       in (po\<lparr>section_addr :=
                                AList.update ''.data'' (baseaddr po + p') (section_addr po)\<rparr>, p')
                    | Some data_addr \<Rightarrow> (po, data_addr - baseaddr po))
             in Inr (if map_of (section_size po1) ''.data'' = None
                     then po1\<lparr>section_size :=
                                AList.update ''.data'' (int (length fwpartfile) - sect_pos)
                                  (section_size po1)\<rparr>
                     else po1)))"

text \<open>
  The section names \<^verbatim>\<open>re.search('^[.]bss[0-9]+$', sectname)\<close> finds: \<^verbatim>\<open>$\<close> also
  matches in front of a newline that ends the string.
\<close>

definition is_digit :: "char \<Rightarrow> bool" where
  "is_digit c \<longleftrightarrow> 48 \<le> (of_char c :: nat) \<and> (of_char c :: nat) \<le> 57"

definition strip_final_newline :: "string \<Rightarrow> string" where
  "strip_final_newline s = (if s \<noteq> [] \<and> last s = CHR 0x0A then butlast s else s)"

definition is_bss_sibling :: "string \<Rightarrow> bool" where
  "is_bss_sibling sectname =
     (let t = strip_final_newline sectname
      in take 4 t = ''.bss'' \<and> drop 4 t \<noteq> [] \<and> list_all is_digit (drop 4 t))"

text \<open>
  The loop of \<^verbatim>\<open>armfw_bin2elf_settle_sect_bss\<close> over \<^verbatim>\<open>po.section_size.keys()\<close>, with
  the running \<open>sect_pos\<close> and \<open>sect_len\<close>.
\<close>

fun settle_sect_bss_for :: "options \<Rightarrow> string list \<Rightarrow> int \<Rightarrow> int \<Rightarrow> error + options" where
  "settle_sect_bss_for po [] sect_pos sect_len = Inr po"
| "settle_sect_bss_for po (sectname # rest) sect_pos sect_len =
     (if \<not> is_bss_sibling sectname then settle_sect_bss_for po rest sect_pos sect_len
      else if map_of (section_size po) sectname = None then Inr po
      else
        let sect_align = 1;
            (po1, sect_pos1) =
              (case map_of (section_addr po) sectname of
                 None \<Rightarrow>
                  let p = sect_pos + sect_len;
                      p' = (if p mod sect_align \<noteq> 0 then p + (sect_align - p mod sect_align)
                            else p)
                  in (po\<lparr>section_addr :=
                           AList.update sectname (baseaddr po + p') (section_addr po)\<rparr>, p')
               | Some addr \<Rightarrow> (po, addr - baseaddr po))
        in (case map_of (section_size po1) sectname of
              None \<Rightarrow> Inl KeyError
            | Some len \<Rightarrow> settle_sect_bss_for po1 rest sect_pos1 len))"

definition armfw_bin2elf_settle_sect_bss :: "options \<Rightarrow> byte list \<Rightarrow> error + options" where
  "armfw_bin2elf_settle_sect_bss po fwpartfile =
     (case map_of (section_addr po) ''.data'' of
        None \<Rightarrow> Inl AssertionError
      | Some data_addr \<Rightarrow>
         (case map_of (section_size po) ''.data'' of
            None \<Rightarrow> Inl KeyError
          | Some data_len \<Rightarrow>
             let sect_align = 1;
                 (po1, sect_pos) =
                   (case map_of (section_addr po) ''.bss'' of
                      None \<Rightarrow>
                       let p = data_addr - baseaddr po + data_len;
                           p' = (if p mod sect_align \<noteq> 0 then p + (sect_align - p mod sect_align)
                                 else p)
                       in (po\<lparr>section_addr :=
                                AList.update ''.bss'' (baseaddr po + p') (section_addr po)\<rparr>, p')
                    | Some bss_addr \<Rightarrow> (po, bss_addr - baseaddr po));
                 (po2, sect_len) =
                   (case map_of (section_size po1) ''.bss'' of
                      None \<Rightarrow>
                       let l = addrspacelen po1 - sect_pos;
                           l' = (if l < 0 then 0 else l)
                       in (po1\<lparr>section_size := AList.update ''.bss'' l' (section_size po1)\<rparr>, l')
                    | Some bss_len \<Rightarrow> (po1, bss_len))
             in settle_sect_bss_for po2 (map fst (section_size po2)) sect_pos sect_len))"

subsection \<open>ContainerBuilder: \<^verbatim>\<open>armfw_bin2elf_update_elffile\<close>\<close>

text \<open>
  Modelled from the spec: the container object of the library (pyelftools with write
  support), which is missing from the sources. It has the entry point of the header and
  the section descriptors in the order of the section table.
\<close>

record elf_file =
  e_entry :: int
  sections :: "elf_section list"

text \<open>
  Modelled from the spec: the library's \<^verbatim>\<open>get_section_by_name\<close>, which is missing from
  the sources: the lookup of a section descriptor by name, \<open>None\<close> when there is none.
\<close>

definition get_section_by_name :: "elf_file \<Rightarrow> string \<Rightarrow> elf_section option" where
  "get_section_by_name elfobj sectname = find (\<lambda>s. name s = sectname) (sections elfobj)"

text \<open>
  Modelled from the spec: the library's \<^verbatim>\<open>insert_section_after\<close>, which is missing from
  the sources: the insertion of a descriptor right after the sibling of the given name.
\<close>

fun insert_after :: "string \<Rightarrow> elf_section \<Rightarrow> elf_section list \<Rightarrow> elf_section list" where
  "insert_after sectname_prev sect [] = []"
| "insert_after sectname_prev sect (s # ss) =
     (if name s = sectname_prev then s # sect # ss
      else s # insert_after sectname_prev sect ss)"

definition insert_section_after :: "elf_file \<Rightarrow> string \<Rightarrow> elf_section \<Rightarrow> elf_file" where
  "insert_section_after elfobj sectname_prev sect =
     elfobj\<lparr>sections := insert_after sectname_prev sect (sections elfobj)\<rparr>"

text \<open>
  Modelled from the spec: the library's \<^verbatim>\<open>set_section_by_name\<close>, which is missing from
  the sources: the descriptor of the given name is replaced by the updated one.
\<close>

fun replace_named :: "string \<Rightarrow> elf_section \<Rightarrow> elf_section list \<Rightarrow> elf_section list" where
  "replace_named sectname sect [] = []"
| "replace_named sectname sect (s # ss) =
     (if name s = sectname then sect # ss else s # replace_named sectname sect ss)"

definition set_section_by_name :: "elf_file \<Rightarrow> string \<Rightarrow> elf_section \<Rightarrow> elf_file" where
  "set_section_by_name elfobj sectname sect =
     elfobj\<lparr>sections := replace_named sectname sect (sections elfobj)\<rparr>"

text \<open>
  The match of \<^verbatim>\<open>'^(?P<name>[.].*[^0-9])(?P<num>[0-9]+)$'\<close>: the groups \<open>(name, num)\<close>.
  \<open>num\<close> is the run of digits at the end, \<open>name\<close> the text in front of it, which starts
  with a dot and has a further character; \<^verbatim>\<open>.*\<close> does not match a newline.
\<close>

definition sectname_num_match :: "string \<Rightarrow> (string \<times> string) option" where
  "sectname_num_match sectname =
     (let t = strip_final_newline sectname;
          num = rev (takeWhile is_digit (rev t));
          nm = rev (dropWhile is_digit (rev t))
      in if num \<noteq> [] \<and> 2 \<le> length nm \<and> hd nm = CHR ''.'' \<and> CHR 0x0A \<notin> set (butlast (tl nm))
         then Some (nm, num) else None)"

text \<open>\<^verbatim>\<open>int(num, 10)\<close> on a string of digits, and the format \<^verbatim>\<open>{:d}\<close>.\<close>

definition int_of_digits :: "string \<Rightarrow> int" where
  "int_of_digits ds = foldl (\<lambda>acc c. 10 * acc + (int (of_char c) - 48)) 0 ds"

function decimal_of_nat :: "nat \<Rightarrow> string \<Rightarrow> string" where
  "decimal_of_nat n acc =
     (let acc' = char_of (n mod 10 + 48) # acc
      in if n div 10 = 0 then acc' else decimal_of_nat (n div 10) acc')"
  by pat_completeness auto

termination decimal_of_nat
  by (relation "measure (\<lambda>(n, acc). n)") auto

declare decimal_of_nat.simps [simp del]

definition format_d :: "int \<Rightarrow> string" where
  "format_d k =
     (if k < 0 then CHR ''-'' # decimal_of_nat (nat (- k)) [] else decimal_of_nat (nat k) [])"

text \<open>
  Lines 512 to 526: the descriptor for \<open>sectname\<close>, found by its name or cloned from the
  template section without the number and inserted after the previous sibling. A name
  that matches no descriptor and has no number makes \<^verbatim>\<open>sectname_m.group\<close> fail on
  \<^verbatim>\<open>None\<close>.
\<close>

definition elffile_locate_section ::
  "elf_file \<Rightarrow> string \<Rightarrow> error + (elf_file \<times> elf_section)" where
  "elffile_locate_section elfobj sectname =
     (case get_section_by_name elfobj sectname of
        Some sect \<Rightarrow> Inr (elfobj, sect)
      | None \<Rightarrow>
         (case sectname_num_match sectname of
            None \<Rightarrow> Inl AttributeError
          | Some (nm, num) \<Rightarrow>
             (case get_section_by_name elfobj nm of
                None \<Rightarrow> Inl EOFError
              | Some sect0 \<Rightarrow>
                 let sect = sect0\<lparr>name := sectname\<rparr>;
                     sectname_prev0 = nm @ format_d (int_of_digits num - 1);
                     sectname_prev = (if get_section_by_name elfobj sectname_prev0 = None then nm
                                      else sectname_prev0)
                 in Inr (insert_section_after elfobj sectname_prev sect, sect))))"

text \<open>One round of the loop over \<^verbatim>\<open>sections_order\<close>, and the loop.\<close>

definition update_elffile_step ::
  "options \<Rightarrow> byte list \<Rightarrow> (string \<times> int) list \<Rightarrow> (string \<times> int) list \<Rightarrow> elf_file \<Rightarrow> string
     \<Rightarrow> error + elf_file" where
  "update_elffile_step po fwpartfile sections_pos sections_align elfobj sectname =
     (case elffile_locate_section elfobj sectname of
        Inl e \<Rightarrow> Inl e
      | Inr (elfobj1, sect) \<Rightarrow>
         (case update_elffile_section po fwpartfile sections_pos sections_align sectname sect of
            Inl e \<Rightarrow> Inl e
          | Inr sect' \<Rightarrow> Inr (set_section_by_name elfobj1 sectname sect')))"

fun update_elffile_for ::
  "options \<Rightarrow> byte list \<Rightarrow> (string \<times> int) list \<Rightarrow> (string \<times> int) list \<Rightarrow> string list
     \<Rightarrow> elf_file \<Rightarrow> error + elf_file" where
  "update_elffile_for po fwpartfile sections_pos sections_align [] elfobj = Inr elfobj"
| "update_elffile_for po fwpartfile sections_pos sections_align (sectname # rest) elfobj =
     (case update_elffile_step po fwpartfile sections_pos sections_align elfobj sectname of
        Inl e \<Rightarrow> Inl e
      | Inr elfobj1 \<Rightarrow>
         update_elffile_for po fwpartfile sections_pos sections_align rest elfobj1)"

text \<open>
  \<^verbatim>\<open>armfw_bin2elf_update_elffile\<close>: the result is the container object after the loop,
  which \<^verbatim>\<open>write_changes\<close> serializes unless \<^verbatim>\<open>po.dry_run\<close> is set.
\<close>

definition armfw_bin2elf_update_elffile ::
  "options \<Rightarrow> elf_file \<Rightarrow> byte list \<Rightarrow> string list \<Rightarrow> (string \<times> int) list \<Rightarrow> (string \<times> int) list
     \<Rightarrow> error + elf_file" where
  "armfw_bin2elf_update_elffile po elfobj fwpartfile sections_order sections_pos sections_align =
     update_elffile_for po fwpartfile sections_pos sections_align sections_order
       (elfobj\<lparr>e_entry := baseaddr po\<rparr>)"

subsection \<open>The conversion: \<^verbatim>\<open>armfw_bin2elf\<close>\<close>

text \<open>
  Lines 567 to 587, from the settled options on: the section order, the sizes, the
  alignments and file positions, and the builder on the copy of the template \<open>tmplt\<close>.
\<close>

definition armfw_bin2elf_convert ::
  "options \<Rightarrow> byte list \<Rightarrow> elf_file \<Rightarrow> int \<Rightarrow> error + elf_file \<times> warning list" where
  "armfw_bin2elf_convert po fwpartfile tmplt addrspace_limit =
     (case armfw_bin2elf_get_sections_order po addrspace_limit of
        (sections_order, w1) \<Rightarrow>
         (case armfw_bin2elf_update_sect_sizes po sections_order addrspace_limit of
            Inl e \<Rightarrow> Inl e
          | Inr (po1, w2) \<Rightarrow>
             (case armfw_bin2elf_get_sections_align po1 sections_order of
                Inl e \<Rightarrow> Inl e
              | Inr sections_align \<Rightarrow>
                 (case armfw_bin2elf_get_sections_pos po1 sections_order of
                    Inl e \<Rightarrow> Inl e
                  | Inr sections_pos \<Rightarrow>
                     (case armfw_bin2elf_update_elffile po1 tmplt fwpartfile sections_order
                             sections_pos sections_align of
                        Inl e \<Rightarrow> Inl e
                      | Inr elfobj \<Rightarrow> Inr (elfobj, w1 @ w2))))))"

text \<open>Lines 562 to 565 of \<^verbatim>\<open>armfw_bin2elf\<close>: the four settling steps.\<close>

definition armfw_bin2elf_settle ::
  "options \<Rightarrow> byte list \<Rightarrow> (error + options \<times> warning list) option" where
  "armfw_bin2elf_settle po fwpartfile =
     (case armfw_bin2elf_settle_sect_ARMexidx po fwpartfile of
        None \<Rightarrow> None
      | Some (Inl e) \<Rightarrow> Some (Inl e)
      | Some (Inr (po1, w0)) \<Rightarrow>
         Some (case armfw_bin2elf_settle_sect_text po1 fwpartfile of
                 Inl e \<Rightarrow> Inl e
               | Inr po2 \<Rightarrow>
                  (case armfw_bin2elf_settle_sect_data po2 fwpartfile of
                     Inl e \<Rightarrow> Inl e
                   | Inr po3 \<Rightarrow>
                      (case armfw_bin2elf_settle_sect_bss po3 fwpartfile of
                         Inl e \<Rightarrow> Inl e
                       | Inr po4 \<Rightarrow> Inr (po4, w0)))))"

text \<open>
  \<^verbatim>\<open>armfw_bin2elf\<close>: the settling steps, then the conversion with the limit of the
  32-bit address space (\<^verbatim>\<open>is_arm64\<close> is \<^verbatim>\<open>False\<close>).
\<close>

definition armfw_bin2elf ::
  "options \<Rightarrow> byte list \<Rightarrow> elf_file \<Rightarrow> (error + elf_file \<times> warning list) option" where
  "armfw_bin2elf po fwpartfile tmplt =
     (case armfw_bin2elf_settle po fwpartfile of
        None \<Rightarrow> None
      | Some (Inl e) \<Rightarrow> Some (Inl e)
      | Some (Inr (po4, w0)) \<Rightarrow>
         Some (case armfw_bin2elf_convert po4 fwpartfile tmplt (2 ^ 32 - 1) of
                 Inl e \<Rightarrow> Inl e
               | Inr (elfobj, ws) \<Rightarrow> Inr (elfobj, w0 @ ws)))"

text \<open>The options without the sections whose address is beyond the limit.\<close>

definition within_limit :: "options \<Rightarrow> int \<Rightarrow> options" where
  "within_limit po addrspace_limit =
     po\<lparr>section_addr := filter (\<lambda>(sectname, addr). addr \<le> addrspace_limit) (section_addr po)\<rparr>"

subsection \<open>Example inputs\<close>

text \<open>
  The configuration \<^verbatim>\<open>main\<close> builds when no option is given: base address
  \<open>0x1000000\<close>, address space length \<open>0x2000000\<close>, function alignment 2, section
  alignment \<open>0x10\<close>, no section override.
\<close>

definition po_default :: options where
  "po_default =
     \<lparr>baseaddr = 0x1000000, addrspacelen = 0x2000000, expect_func_align = 2,
      expect_sect_align = 0x10, section_addr = [], section_size = [], verbose = 0,
      dry_run = False\<rparr>"

text \<open>A \<^verbatim>\<open>.text\<close> section whose address and size are both multiples of \<open>0x20\<close>.\<close>

definition po_align :: options where
  "po_align =
     po_default\<lparr>section_addr := [(''.text'', 0x1000000)], section_size := [(''.text'', 0x20)]\<rparr>"

text \<open>A loaded section descriptor of the template.\<close>

definition sect_data :: elf_section where
  "sect_data =
     \<lparr>name = ''.data'', sh_type = ''SHT_PROGBITS'', sh_addr = 0, sh_addralign = 1,
      sh_size = 0, data = []\<rparr>"

text \<open>A single \<^verbatim>\<open>.text\<close> section at the base address, without a size.\<close>

definition po_text_only :: options where
  "po_text_only = po_default\<lparr>section_addr := [(''.text'', 0x1000000)]\<rparr>"

text \<open>
  \<^verbatim>\<open>.text\<close> with a size that runs into \<^verbatim>\<open>.data\<close>, and \<^verbatim>\<open>.data\<close> without a size.
\<close>

definition po_overlap :: options where
  "po_overlap =
     po_default\<lparr>section_addr := [(''.text'', 0x1000000), (''.data'', 0x1001000)],
                 section_size := [(''.text'', 0x2000)]\<rparr>"

text \<open>
  Images for the scanner. \<open>exidx_ent\<close> is one exception index record: the prel31 offset
  \<open>- 2\<close> (\<open>0x7FFFFFFE\<close>) and \<^verbatim>\<open>EXIDX_CANTUNWIND\<close>. \<open>image_two_runs\<close> holds one such record
  at offset 16 and one at offset 32, each followed by 8 zero bytes; \<open>image_ff_padding\<close>
  holds one at offset 16 followed by 8 bytes \<open>0xFF\<close>.
\<close>

definition exidx_ent :: "byte list" where
  "exidx_ent = [0xFE, 0xFF, 0xFF, 0x7F, 0x01, 0x00, 0x00, 0x00]"

definition image_two_runs :: "byte list" where
  "image_two_runs = replicate 16 0x00 @ exidx_ent @ replicate 8 0x00 @ exidx_ent @ replicate 8 0x00"

definition image_ff_padding :: "byte list" where
  "image_ff_padding = replicate 16 0x00 @ exidx_ent @ replicate 8 0xFF"

text \<open>
  A template with a code, an anchor, a data and an uninitialized section, and an image
  with one exception index record at offset \<open>0x20\<close>.
\<close>

definition tmplt_sections :: elf_file where
  "tmplt_sections =
     \<lparr>e_entry = 0,
      sections =
        [\<lparr>name = ''.text'', sh_type = ''SHT_PROGBITS'', sh_addr = 0, sh_addralign = 4,
          sh_size = 0, data = []\<rparr>,
         \<lparr>name = ''.ARM.exidx'', sh_type = ''SHT_ARM_EXIDX'', sh_addr = 0, sh_addralign = 4,
          sh_size = 0, data = []\<rparr>,
         \<lparr>name = ''.data'', sh_type = ''SHT_PROGBITS'', sh_addr = 0, sh_addralign = 4,
          sh_size = 0, data = []\<rparr>,
         \<lparr>name = ''.bss'', sh_type = ''SHT_NOBITS'', sh_addr = 0x20000000, sh_addralign = 4,
          sh_size = 0x100, data = []\<rparr>]\<rparr>"

definition image_one_run :: "byte list" where
  "image_one_run = replicate 32 0x00 @ exidx_ent @ replicate 8 0x00 @ replicate 16 0x11"

text \<open>An override that places \<^verbatim>\<open>.bss\<close> beyond the 32-bit address space.\<close>

definition po_bss_beyond :: options where
  "po_bss_beyond =
     po_default\<lparr>section_addr := [(''.bss'', 0x100000000)], section_size := [(''.bss'', 0x10)]\<rparr>"

text \<open>The options above after the settling steps on \<open>image_one_run\<close>.\<close>

definition po_bss_beyond_settled :: options where
  "po_bss_beyond_settled =
     po_default\<lparr>section_addr := [(''.bss'', 0x100000000), (''.ARM.exidx'', 0x1000020),
                                  (''.text'', 0x1000000), (''.data'', 0x1000028)],
                 section_size := [(''.bss'', 0x10), (''.ARM.exidx'', 8), (''.text'', 0x20),
                                  (''.data'', 0x18)]\<rparr>"

section \<open>Properties\<close>

subsection \<open>Bit masks on integers\<close>

lemma and_low_mask: "(v::int) AND (2 ^ n - 1) = v mod 2 ^ n"
  by (metis mask_eq_exp_minus_1 take_bit_eq_mask take_bit_eq_mod)

lemma and_single_bit: "(v::int) AND 2 ^ n = (if bit v n then 2 ^ n else 0)"
  by (rule bit_eqI) (auto simp: bit_and_iff bit_exp_iff)

lemma and_single_bit_mod: "(v::int) AND 2 ^ n = v mod 2 ^ Suc n - v mod 2 ^ n"
proof -
  have "take_bit (Suc n) v = 2 ^ n * of_bool (bit v n) + take_bit n v"
    by (rule take_bit_Suc_from_most)
  then have "v mod 2 ^ Suc n - v mod 2 ^ n = 2 ^ n * of_bool (bit v n)"
    by (simp add: take_bit_eq_mod)
  then show ?thesis
    by (simp add: and_single_bit)
qed

lemma mod_minus_once:
  assumes "b \<le> v" "v < 2 * b"
  shows "(v::int) mod b = v - b"
proof -
  have "(v - b) mod b = v - b"
    using assms by (intro mod_pos_pos_trivial) simp_all
  then show ?thesis
    by (simp only: minus_mod_self2)
qed

lemma mod_plus_once:
  assumes "- b \<le> v" "v < 0"
  shows "(v::int) mod b = v + b"
proof -
  have "(v + b) mod b = v + b"
    using assms by (intro mod_pos_pos_trivial) simp_all
  then show ?thesis
    by (simp only: mod_add_self2)
qed

lemma sign_extend_31:
  "sign_extend v 31 = Inr (2 * (v mod 2 ^ 30) - v mod 2 ^ 31)"
proof -
  have a: "v AND (2 ^ 30 - 1) = v mod 2 ^ 30"
    by (rule and_low_mask)
  have b: "v AND 2 ^ 30 = v mod 2 ^ Suc 30 - v mod 2 ^ 30"
    by (rule and_single_bit_mod)
  have "(v AND (2 ^ 30 - 1)) - (v AND 2 ^ 30) = 2 * (v mod 2 ^ 30) - v mod 2 ^ 31"
    unfolding a b by simp
  then show ?thesis
    by (simp add: sign_extend_def push_bit_of_1)
qed

lemma bit31_clear_bound:
  assumes "0 \<le> v" "v < 2 ^ 32" "v AND 0x80000000 = 0"
  shows "(v::int) < 2 ^ 31"
proof -
  have "v AND 2 ^ 31 = v mod 2 ^ Suc 31 - v mod 2 ^ 31"
    by (rule and_single_bit_mod)
  with assms have "v mod 2 ^ 31 = v"
    by simp
  moreover have "v mod 2 ^ 31 < 2 ^ 31"
    by simp
  ultimately show ?thesis
    by linarith
qed

lemma bit30_clear_iff:
  assumes "0 \<le> v" "(v::int) < 2 ^ 31"
  shows "v AND 0x40000000 = 0 \<longleftrightarrow> v < 2 ^ 30"
proof -
  have e: "v AND 2 ^ 30 = v mod 2 ^ Suc 30 - v mod 2 ^ 30"
    by (rule and_single_bit_mod)
  have m: "v mod 2 ^ 31 = v"
    using assms by simp
  have lt: "v mod 2 ^ 30 < 2 ^ 30"
    by simp
  show ?thesis
  proof
    assume "v AND 0x40000000 = 0"
    with e m have "v mod 2 ^ 30 = v" by simp
    with lt show "v < 2 ^ 30" by linarith
  next
    assume "v < 2 ^ 30"
    with assms have "v mod 2 ^ 30 = v" by simp
    with e m show "v AND 0x40000000 = 0" by simp
  qed
qed

lemma prel31_to_addr_value:
  assumes "0 \<le> v" "(v::int) < 2 ^ 31"
  shows "prel31_to_addr v r =
           Inr ((r + (if v < 2 ^ 30 then v else v - 2 ^ 31)) mod 2 ^ 32)"
proof (cases "v < 2 ^ 30")
  case True
  with assms have "v mod 2 ^ 30 = v" "v mod 2 ^ 31 = v" by simp_all
  with True show ?thesis
    by (simp add: prel31_to_addr_def sign_extend_31 c_uint_def)
next
  case False
  with assms have "v mod 2 ^ 30 = v - 2 ^ 30"
    by (intro mod_minus_once) simp_all
  moreover from assms have "v mod 2 ^ 31 = v" by simp
  ultimately show ?thesis using False
    by (simp add: prel31_to_addr_def sign_extend_31 c_uint_def)
qed

subsection \<open>C7: relative-to-absolute address resolution\<close>

text \<open>
  C7, as stated, at the field \<open>1\<close> (bits 31 and 30 clear) and the reference
  \<open>0xFFFFFFFF\<close>: the sum wraps around to \<open>0\<close>, which is below
  \<open>reference - 2 ^ 30\<close>.
\<close>

theorem prel31_to_addr_wrap_counterexample:
  "(1::int) AND 0x80000000 = 0 \<and> (1::int) AND 0x40000000 = 0
   \<and> prel31_to_addr 1 0xFFFFFFFF = Inr 0
   \<and> \<not> ((0::int) \<ge> 0xFFFFFFFF - 2 ^ 30)"
  by (simp add: prel31_to_addr_def sign_extend_def c_uint_def)

text \<open>
  C7, amended: for every 32-bit field with bit 31 clear and every 32-bit reference,
  \<^verbatim>\<open>prel31_to_addr\<close> returns a 32-bit value; when bit 30 of the field is clear the
  result is at least \<open>reference - 2 ^ 30\<close> exactly when \<open>reference + field\<close> does not wrap
  past \<open>2 ^ 32 - 1\<close>, and when bit 30 is set the result is strictly less than the reference
  exactly when \<open>reference + sign_extend(field, 31)\<close> does not wrap below zero.
\<close>

theorem prel31_to_addr_bounds:
  assumes "0 \<le> field" "field < 2 ^ 32" "field AND 0x80000000 = 0"
    and "0 \<le> reference" "reference < 2 ^ 32"
  shows "\<exists>r. prel31_to_addr field reference = Inr r \<and> 0 \<le> r \<and> r < 2 ^ 32
     \<and> (if field AND 0x40000000 = 0
         then (reference - 2 ^ 30 \<le> r \<longleftrightarrow> reference + field < 2 ^ 32)
         else (r < reference \<longleftrightarrow> 2 ^ 31 \<le> reference + field))"
proof -
  have f31: "field < 2 ^ 31"
    using assms(1-3) by (rule bit31_clear_bound)
  have b30: "field AND 0x40000000 = 0 \<longleftrightarrow> field < 2 ^ 30"
    using assms(1) f31 by (rule bit30_clear_iff)
  define r where "r = (reference + (if field < 2 ^ 30 then field else field - 2 ^ 31)) mod 2 ^ 32"
  have val: "prel31_to_addr field reference = Inr r"
    unfolding r_def using assms(1) f31 by (rule prel31_to_addr_value)
  have rng: "0 \<le> r" "r < 2 ^ 32"
    by (simp_all add: r_def)
  have cmp: "if field < 2 ^ 30
         then (reference - 2 ^ 30 \<le> r \<longleftrightarrow> reference + field < 2 ^ 32)
         else (r < reference \<longleftrightarrow> 2 ^ 31 \<le> reference + field)"
  proof (cases "field < 2 ^ 30")
    case True
    show ?thesis
    proof (cases "reference + field < 2 ^ 32")
      case nowrap: True
      with assms True have "r = reference + field"
        by (simp add: r_def)
      with True nowrap assms show ?thesis by simp
    next
      case wrap: False
      have "(reference + field) mod 2 ^ 32 = reference + field - 2 ^ 32"
        using wrap assms True by (intro mod_minus_once) simp_all
      then have "r = reference + field - 2 ^ 32"
        using True by (simp add: r_def)
      with True wrap assms show ?thesis by simp
    qed
  next
    case False
    show ?thesis
    proof (cases "2 ^ 31 \<le> reference + field")
      case nowrap: True
      have "(reference + (field - 2 ^ 31)) mod 2 ^ 32 = reference + (field - 2 ^ 31)"
        using nowrap assms f31 by (intro mod_pos_pos_trivial) simp_all
      then have "r = reference + field - 2 ^ 31"
        using False by (simp add: r_def)
      with False nowrap f31 show ?thesis by simp
    next
      case wrap: False
      have "(reference + (field - 2 ^ 31)) mod 2 ^ 32 = reference + (field - 2 ^ 31) + 2 ^ 32"
        using wrap assms f31 by (intro mod_plus_once) simp_all
      then have "r = reference + field + 2 ^ 31"
        using False by (simp add: r_def)
      with False wrap assms show ?thesis by simp
    qed
  qed
  from val rng cmp b30 show ?thesis
    by auto
qed

theorem prel31_to_addr_bounds_witness:
  "\<exists>r. prel31_to_addr 0x7FFFFFFE 0x1000010 = Inr r \<and> r < 0x1000010"
  using prel31_to_addr_bounds [of "0x7FFFFFFE" "0x1000010"]
  by (auto simp: and_single_bit_mod [of _ 30, simplified] and_single_bit_mod [of _ 31, simplified])

subsection \<open>C3: alignment inference\<close>

lemma sect_align_while_pow2:
  "\<exists>m\<le>j. sect_align_while v (2 ^ j) = Inr (2 ^ m) \<and> 2 ^ m dvd v
          \<and> (\<forall>i. m < i \<and> i \<le> j \<longrightarrow> \<not> (2::int) ^ i dvd v)"
proof (induction j)
  case 0
  have "sect_align_while v 1 = Inr 1"
    by (subst sect_align_while.simps) simp
  then show ?case by simp
next
  case (Suc j)
  show ?case
  proof (cases "(2::int) ^ Suc j dvd v")
    case True
    then have "v mod 2 ^ Suc j = 0"
      by (simp only: mod_eq_0_iff_dvd)
    then have "sect_align_while v (2 ^ Suc j) = Inr (2 ^ Suc j)"
      by (subst sect_align_while.simps) simp
    with True show ?thesis
      by (intro exI [of _ "Suc j"]) auto
  next
    case False
    then have nz: "v mod 2 ^ Suc j \<noteq> 0"
      by (simp only: mod_eq_0_iff_dvd) simp
    have "drop_bit 1 ((2::int) ^ Suc j) = 2 ^ j"
      by (simp add: drop_bit_eq_div)
    with nz have step: "sect_align_while v (2 ^ Suc j) = sect_align_while v (2 ^ j)"
      by (subst sect_align_while.simps) simp
    from Suc.IH obtain m where m: "m \<le> j" "sect_align_while v (2 ^ j) = Inr (2 ^ m)"
        "2 ^ m dvd v" "\<forall>i. m < i \<and> i \<le> j \<longrightarrow> \<not> (2::int) ^ i dvd v"
      by blast
    have "\<forall>i. m < i \<and> i \<le> Suc j \<longrightarrow> \<not> (2::int) ^ i dvd v"
      using m(4) False by (metis le_Suc_eq)
    with m step show ?thesis
      by (intro exI [of _ m]) simp
  qed
qed

lemma section_align_pow2:
  assumes "expect_sect_align po = 2 ^ k"
    and "map_of (section_addr po) sectname = Some addr"
    and "map_of (section_size po) sectname = Some sz"
  shows "\<exists>j\<le>Suc k. section_align po sectname = Inr (2 ^ j) \<and> 2 ^ j dvd addr \<and> 2 ^ j dvd sz
           \<and> (\<forall>i\<le>Suc k. 2 ^ i dvd addr \<and> 2 ^ i dvd sz \<longrightarrow> i \<le> j)"
proof -
  have start: "push_bit 1 (expect_sect_align po) = 2 ^ Suc k"
    using assms(1) by (simp add: push_bit_eq_mult)
  from sect_align_while_pow2 [of "Suc k" addr] obtain m1 where m1: "m1 \<le> Suc k"
      "sect_align_while addr (2 ^ Suc k) = Inr (2 ^ m1)" "2 ^ m1 dvd addr"
      "\<forall>i. m1 < i \<and> i \<le> Suc k \<longrightarrow> \<not> (2::int) ^ i dvd addr"
    by blast
  from sect_align_while_pow2 [of m1 sz] obtain m2 where m2: "m2 \<le> m1"
      "sect_align_while sz (2 ^ m1) = Inr (2 ^ m2)" "2 ^ m2 dvd sz"
      "\<forall>i. m2 < i \<and> i \<le> m1 \<longrightarrow> \<not> (2::int) ^ i dvd sz"
    by blast
  have res: "section_align po sectname = Inr (2 ^ m2)"
    unfolding section_align_def start using assms(2,3) m1(2) m2(2) by simp
  have "(2::int) ^ m2 dvd 2 ^ m1"
    using m2(1) by (rule le_imp_power_dvd)
  with m1(3) have d1: "2 ^ m2 dvd addr"
    by (rule dvd_trans [rotated])
  have largest: "\<forall>i\<le>Suc k. 2 ^ i dvd addr \<and> 2 ^ i dvd sz \<longrightarrow> i \<le> m2"
  proof (intro allI impI)
    fix i
    assume i: "i \<le> Suc k" and d: "2 ^ i dvd addr \<and> 2 ^ i dvd sz"
    from m1(4) i d have "i \<le> m1" by (meson not_le_imp_less)
    with m2(4) d show "i \<le> m2" by (meson not_le_imp_less)
  qed
  from m1(1) m2(1) res d1 m2(3) largest show ?thesis
    by (intro exI [of _ m2]) simp
qed

lemma get_sections_align_for_lookup:
  assumes "\<forall>m\<in>set ns. \<exists>r. section_align po m = Inr r"
  shows "\<exists>al. get_sections_align_for po ns acc = Inr al
           \<and> (\<forall>m. map_of al m = (if m \<in> set ns
                                    then (case section_align po m of Inr r \<Rightarrow> Some r | Inl e \<Rightarrow> None)
                                    else map_of acc m))"
  using assms
proof (induction ns arbitrary: acc)
  case Nil
  then show ?case by simp
next
  case (Cons n ns)
  from Cons.prems obtain r where r: "section_align po n = Inr r"
    by auto
  from Cons.prems have "\<forall>m\<in>set ns. \<exists>r. section_align po m = Inr r"
    by simp
  from Cons.IH [OF this, of "AList.update n r acc"] obtain al where
    al: "get_sections_align_for po ns (AList.update n r acc) = Inr al"
      "\<forall>m. map_of al m = (if m \<in> set ns
                             then (case section_align po m of Inr r \<Rightarrow> Some r | Inl e \<Rightarrow> None)
                             else map_of (AList.update n r acc) m)"
    by blast
  from al r show ?case
    by (auto simp: update_conv')
qed

text \<open>
  With an expected alignment that is not a power of two the second loop can leave a value
  that does not divide the address: 20, 10, 5 for the address 5, then 2 for the size 2.
\<close>

lemma section_align_not_power_of_two:
  "section_align (po_default\<lparr>expect_sect_align := 10, section_addr := [(''.text'', 5)],
                              section_size := [(''.text'', 2)]\<rparr>) ''.text'' = Inr 2
   \<and> \<not> (2::int) dvd 5"
  by code_simp

text \<open>
  C3, as stated, on a section at \<open>0x1000000\<close> of size \<open>0x20\<close> with the expected section
  alignment \<open>0x10\<close>: the inferred alignment is \<open>0x20\<close>, above the expected one.
\<close>

theorem get_sections_align_above_expected_counterexample:
  "armfw_bin2elf_get_sections_align po_align [''.text''] = Inr [(''.text'', 0x20)]
   \<and> expect_sect_align po_align = 0x10 \<and> \<not> ((0x20::int) \<le> expect_sect_align po_align)"
  by code_simp

text \<open>
  C3, amended: with an expected section alignment that is a power of two, the inference
  returns for every section of the order (each with a resolved address and size) the
  largest of the candidates \<open>2 * expected, expected, expected / 2, \<dots>, 1\<close> that divides
  both the address and the size of the section; it always returns, and the inferred
  alignment never exceeds twice the expected section alignment.
\<close>

theorem get_sections_align_largest:
  assumes "expect_sect_align po = 2 ^ k"
    and "\<forall>m\<in>set sections_order. map_of (section_addr po) m \<noteq> None \<and> map_of (section_size po) m \<noteq> None"
    and "sectname \<in> set sections_order"
    and "map_of (section_addr po) sectname = Some addr"
    and "map_of (section_size po) sectname = Some sz"
  shows "\<exists>sections_align j.
           armfw_bin2elf_get_sections_align po sections_order = Inr sections_align
           \<and> map_of sections_align sectname = Some (2 ^ j) \<and> j \<le> Suc k
           \<and> 2 ^ j dvd addr \<and> 2 ^ j dvd sz
           \<and> (\<forall>i\<le>Suc k. 2 ^ i dvd addr \<and> 2 ^ i dvd sz \<longrightarrow> i \<le> j)
           \<and> (2::int) ^ j \<le> 2 * expect_sect_align po"
proof -
  have all: "\<forall>m\<in>set sections_order. \<exists>r. section_align po m = Inr r"
  proof
    fix m
    assume "m \<in> set sections_order"
    with assms(2) obtain a s where "map_of (section_addr po) m = Some a" "map_of (section_size po) m = Some s"
      by auto
    with section_align_pow2 [OF assms(1)] show "\<exists>r. section_align po m = Inr r"
      by blast
  qed
  from get_sections_align_for_lookup [OF all, of "[]"] obtain al where
    al: "armfw_bin2elf_get_sections_align po sections_order = Inr al"
      "\<forall>m. map_of al m = (if m \<in> set sections_order
                             then (case section_align po m of Inr r \<Rightarrow> Some r | Inl e \<Rightarrow> None)
                             else map_of [] m)"
    unfolding armfw_bin2elf_get_sections_align_def by blast
  from section_align_pow2 [OF assms(1,4,5)] obtain j where j: "j \<le> Suc k"
      "section_align po sectname = Inr (2 ^ j)" "2 ^ j dvd addr" "2 ^ j dvd sz"
      "\<forall>i\<le>Suc k. 2 ^ i dvd addr \<and> 2 ^ i dvd sz \<longrightarrow> i \<le> j"
    by blast
  from al(2) assms(3) j(2) have look: "map_of al sectname = Some (2 ^ j)"
    by simp
  have "(2::int) ^ j \<le> 2 ^ Suc k"
    using j(1) by (intro power_increasing) simp_all
  then have bound: "(2::int) ^ j \<le> 2 * expect_sect_align po"
    using assms(1) by simp
  from al(1) look j bound show ?thesis
    by blast
qed

theorem get_sections_align_largest_witness:
  "\<exists>sections_align j.
     armfw_bin2elf_get_sections_align po_align [''.text''] = Inr sections_align
     \<and> map_of sections_align ''.text'' = Some (2 ^ j) \<and> j \<le> Suc 4
     \<and> 2 ^ j dvd (0x1000000::int) \<and> 2 ^ j dvd (0x20::int)
     \<and> (\<forall>i\<le>Suc 4. 2 ^ i dvd (0x1000000::int) \<and> 2 ^ i dvd (0x20::int) \<longrightarrow> i \<le> j)
     \<and> (2::int) ^ j \<le> 2 * expect_sect_align po_align"
proof -
  have 1: "expect_sect_align po_align = 2 ^ 4"
    by (simp add: po_align_def po_default_def)
  have 2: "\<forall>m\<in>set [''.text'']. map_of (section_addr po_align) m \<noteq> None
             \<and> map_of (section_size po_align) m \<noteq> None"
    by (simp add: po_align_def po_default_def)
  have 3: "''.text'' \<in> set [''.text'']"
    by simp
  have 4: "map_of (section_addr po_align) ''.text'' = Some 0x1000000"
    by (simp add: po_align_def po_default_def)
  have 5: "map_of (section_size po_align) ''.text'' = Some 0x20"
    by (simp add: po_align_def po_default_def)
  show ?thesis
    by (rule get_sections_align_largest [OF 1 2 3 4 5])
qed

subsection \<open>C4: the payload of a loaded section\<close>

text \<open>The file positions \<^verbatim>\<open>armfw_bin2elf_get_sections_pos\<close> resolves are never negative.\<close>

lemma get_sections_pos_for_nonneg:
  assumes "get_sections_pos_for po ns acc = Inr sections_pos"
    and "\<forall>m q. map_of acc m = Some q \<longrightarrow> 0 \<le> q"
    and "map_of sections_pos sectname = Some sect_pos"
  shows "0 \<le> sect_pos"
  using assms
proof (induction ns arbitrary: acc)
  case Nil
  then show ?case
    by simp
next
  case (Cons n ns)
  from Cons.prems(1) obtain addr where addr: "map_of (section_addr po) n = Some addr"
    by (cases "map_of (section_addr po) n") simp_all
  define p where "p = (if addr - baseaddr po < 0 then 0 else addr - baseaddr po)"
  from Cons.prems(1) addr have run: "get_sections_pos_for po ns (AList.update n p acc) = Inr sections_pos"
    by (simp add: Let_def p_def)
  have "0 \<le> p"
    by (simp add: p_def)
  with Cons.prems(2) have "\<forall>m q. map_of (AList.update n p acc) m = Some q \<longrightarrow> 0 \<le> q"
    by (simp add: update_Some_unfold) blast
  from Cons.IH [OF run this Cons.prems(3)] show ?case .
qed

lemma get_sections_pos_nonneg:
  assumes "armfw_bin2elf_get_sections_pos po sections_order = Inr sections_pos"
    and "map_of sections_pos sectname = Some sect_pos"
  shows "0 \<le> sect_pos"
proof -
  have run: "get_sections_pos_for po sections_order [] = Inr sections_pos"
    using assms(1) by (simp only: armfw_bin2elf_get_sections_pos_def)
  have "\<forall>m q. map_of ([] :: (string \<times> int) list) m = Some q \<longrightarrow> 0 \<le> q"
    by simp
  from get_sections_pos_for_nonneg [OF run this assms(2)] show ?thesis .
qed

text \<open>
  C4, as stated, on an image of 5 bytes and a loaded section of resolved size 10 at file
  position 0: the image holds fewer bytes than the size demands, and the 5 bytes are
  installed as the payload without an error.
\<close>

theorem update_elffile_short_read_counterexample:
  "update_elffile_section
     (po_default\<lparr>section_addr := [(''.data'', 0x1000000)], section_size := [(''.data'', 10)]\<rparr>)
     [1, 2, 3, 4, 5] [(''.data'', 0)] [(''.data'', 2)] ''.data'' sect_data
   = Inr (sect_data\<lparr>sh_addr := 0x1000000, sh_addralign := 2, sh_size := 5, data := [1, 2, 3, 4, 5]\<rparr>)
   \<and> int (length [1, 2, 3, 4, 5 :: byte]) - 0 < 10"
  by (simp add: update_elffile_section_def po_default_def file_read_def set_data_def sect_data_def)

text \<open>
  C4, amended: for a loaded (not \<^verbatim>\<open>SHT_NOBITS\<close>) section with positive resolved size,
  the builder reads at the resolved file position up to the resolved byte length: the
  payload is the bytes the image holds there, at most the resolved size of them (exactly
  that many when the image holds them), and the fatal error is raised exactly when the image
  holds no byte at that position.
\<close>

theorem update_elffile_payload:
  assumes "map_of (section_addr po) sectname = Some addr"
    and "map_of sections_align sectname = Some align"
    and "map_of (section_size po) sectname = Some sz"
    and "map_of sections_pos sectname = Some sect_pos"
    and "sh_type sect \<noteq> ''SHT_NOBITS''" "0 < sz" "0 \<le> sect_pos"
  shows "update_elffile_section po fwpartfile sections_pos sections_align sectname sect =
           (if int (length fwpartfile) \<le> sect_pos then Inl EOFError
            else Inr (sect\<lparr>sh_addr := addr, sh_addralign := align,
                           sh_size := min sz (int (length fwpartfile) - sect_pos),
                           data := take (nat sz) (drop (nat sect_pos) fwpartfile)\<rparr>))"
  using assms
  by (auto simp: update_elffile_section_def file_read_def set_data_def Let_def min_def)

theorem update_elffile_payload_witness:
  "update_elffile_section
     (po_default\<lparr>section_addr := [(''.data'', 0x1000000)], section_size := [(''.data'', 2)]\<rparr>)
     [1, 2, 3, 4, 5] [(''.data'', 1)] [(''.data'', 2)] ''.data'' sect_data
   = Inr (sect_data\<lparr>sh_addr := 0x1000000, sh_addralign := 2, sh_size := 2, data := [2, 3]\<rparr>)"
  using update_elffile_payload
          [of "po_default\<lparr>section_addr := [(''.data'', 0x1000000)], section_size := [(''.data'', 2)]\<rparr>"
              "''.data''" "0x1000000" "[(''.data'', 2)]" 2 2 "[(''.data'', 1)]" 1 sect_data
              "[1, 2, 3, 4, 5]"]
  by (simp add: po_default_def sect_data_def)

subsection \<open>C5: the code region\<close>

text \<open>
  C5, as stated, with the anchor at offset 16 and the function alignment 2: the span is
  exactly 8 times the constant, not smaller, and the resolver raises the hard error.
\<close>

theorem settle_text_exact_span_counterexample:
  "armfw_bin2elf_settle_sect_text
     (po_default\<lparr>section_addr := [(''.ARM.exidx'', 0x1000010)]\<rparr>) [] = Inl EOFError
   \<and> \<not> ((0x1000010::int) - baseaddr po_default < 8 * expect_func_align po_default)"
  by (simp add: armfw_bin2elf_settle_sect_text_def po_default_def)

text \<open>
  C5, amended: when neither an address nor a size override is given for \<^verbatim>\<open>.text\<close>,
  the resolver raises the hard error if and only if the anchor offset is at most 8 times
  the function alignment (a span of exactly 8 times the constant is rejected); otherwise
  the code region is placed at offset 0 of the image (the base address) and its size is the
  anchor offset.
\<close>

theorem settle_text_default:
  assumes "map_of (section_addr po) ''.ARM.exidx'' = Some exidx_addr"
    and "map_of (section_addr po) ''.text'' = None"
    and "map_of (section_size po) ''.text'' = None"
  shows "armfw_bin2elf_settle_sect_text po fwpartfile =
           (if exidx_addr - baseaddr po \<le> 8 * expect_func_align po then Inl EOFError
            else Inr (po\<lparr>section_addr := AList.update ''.text'' (baseaddr po) (section_addr po),
                         section_size := AList.update ''.text'' (exidx_addr - baseaddr po) (section_size po)\<rparr>))"
  using assms
  by (simp add: armfw_bin2elf_settle_sect_text_def Let_def update_conv')

theorem settle_text_default_witness:
  "armfw_bin2elf_settle_sect_text (po_default\<lparr>section_addr := [(''.ARM.exidx'', 0x1001000)]\<rparr>) []
     = Inr (po_default\<lparr>section_addr := [(''.ARM.exidx'', 0x1001000), (''.text'', 0x1000000)],
                       section_size := [(''.text'', 0x1000)]\<rparr>)"
  using settle_text_default
          [of "po_default\<lparr>section_addr := [(''.ARM.exidx'', 0x1001000)]\<rparr>" "0x1001000" "[]"]
  by (simp add: po_default_def)

subsection \<open>C10: an address override for the anchor\<close>

text \<open>
  C10: with an address override for \<^verbatim>\<open>.ARM.exidx\<close> and no size override, the result is
  the same for every image (no scanner reads it, none can fail, diverge or warn), and the
  size of the section is set to the section alignment constant.
\<close>

theorem settle_ARMexidx_addr_override:
  assumes "map_of (section_addr po) ''.ARM.exidx'' = Some addr"
    and "map_of (section_size po) ''.ARM.exidx'' = None"
  shows "armfw_bin2elf_settle_sect_ARMexidx po fwpartfile =
           Some (Inr (po\<lparr>section_size :=
                        AList.update ''.ARM.exidx'' (expect_sect_align po) (section_size po)\<rparr>, []))
         \<and> map_of (AList.update ''.ARM.exidx'' (expect_sect_align po) (section_size po)) ''.ARM.exidx''
             = Some (expect_sect_align po)"
  using assms
  by (simp add: armfw_bin2elf_settle_sect_ARMexidx_def set_size_if_absent_def update_conv')

theorem settle_ARMexidx_addr_override_witness:
  "armfw_bin2elf_settle_sect_ARMexidx
     (po_default\<lparr>section_addr := [(''.ARM.exidx'', 0x1001000)]\<rparr>) []
   = Some (Inr (po_default\<lparr>section_addr := [(''.ARM.exidx'', 0x1001000)],
                            section_size := [(''.ARM.exidx'', 0x10)]\<rparr>, []))"
  using settle_ARMexidx_addr_override
          [of "po_default\<lparr>section_addr := [(''.ARM.exidx'', 0x1001000)]\<rparr>" "0x1001000" "[]"]
  by (simp add: po_default_def)

subsection \<open>The section order and the address space limit\<close>

lemma zero_sized_fold_subset:
  "set (foldl (\<lambda>acc (sectname, addr).
              if addr = sortaddr then
                (case map_of sizes sectname of
                   None \<Rightarrow> acc
                 | Some sz \<Rightarrow> if sz < (1::int) then acc @ [sectname] else acc)
              else acc) acc xs)
     \<subseteq> set acc \<union> {n. (n, sortaddr) \<in> set xs}"
proof (induction xs arbitrary: acc)
  case Nil
  show ?case by simp
next
  case (Cons x xs)
  obtain n a where x: "x = (n, a)" by (cases x)
  show ?case
    using Cons.IH [of acc] Cons.IH [of "acc @ [n]"]
    by (auto simp: x split: option.splits)
qed

lemma zero_sized_fold_mono:
  "set acc \<subseteq> set (foldl (\<lambda>acc (sectname, addr).
              if addr = sortaddr then
                (case map_of sizes sectname of
                   None \<Rightarrow> acc
                 | Some sz \<Rightarrow> if sz < (1::int) then acc @ [sectname] else acc)
              else acc) acc xs)"
proof (induction xs arbitrary: acc)
  case Nil
  show ?case by simp
next
  case (Cons x xs)
  obtain n a where x: "x = (n, a)" by (cases x)
  show ?case
    using Cons.IH [of acc] Cons.IH [of "acc @ [n]"]
    by (auto simp: x split: option.splits)
qed

lemma remaining_fold_subset:
  "set (foldl (\<lambda>acc (sectname, addr).
              if addr = sortaddr \<and> sectname \<notin> set acc then acc @ [sectname] else acc) acc xs)
     \<subseteq> set acc \<union> {n. (n, sortaddr) \<in> set xs}"
proof (induction xs arbitrary: acc)
  case Nil
  show ?case by simp
next
  case (Cons x xs)
  obtain n a where x: "x = (n, a)" by (cases x)
  show ?case
    using Cons.IH [of acc] Cons.IH [of "acc @ [n]"]
    by (auto simp: x)
qed

lemma remaining_fold_complete:
  "set acc \<union> {n. (n, sortaddr) \<in> set xs}
     \<subseteq> set (foldl (\<lambda>acc (sectname, addr).
              if addr = sortaddr \<and> sectname \<notin> set acc then acc @ [sectname] else acc) acc xs)"
proof (induction xs arbitrary: acc)
  case Nil
  show ?case by simp
next
  case (Cons x xs)
  obtain n a where x: "x = (n, a)" by (cases x)
  show ?case
    using Cons.IH [of acc] Cons.IH [of "acc @ [n]"]
    by (auto simp: x)
qed

lemma order_step_set:
  "set (order_add_remaining po sortaddr (order_add_zero_sized po sortaddr sections_order))
     = set sections_order \<union> {n. (n, sortaddr) \<in> set (section_addr po)}"
proof
  show "set (order_add_remaining po sortaddr (order_add_zero_sized po sortaddr sections_order))
     \<subseteq> set sections_order \<union> {n. (n, sortaddr) \<in> set (section_addr po)}"
    unfolding order_add_remaining_def order_add_zero_sized_def
    using remaining_fold_subset zero_sized_fold_subset by fast
  show "set sections_order \<union> {n. (n, sortaddr) \<in> set (section_addr po)}
     \<subseteq> set (order_add_remaining po sortaddr (order_add_zero_sized po sortaddr sections_order))"
    unfolding order_add_remaining_def order_add_zero_sized_def
    using remaining_fold_complete zero_sized_fold_mono by fast
qed

lemma get_sections_order_for_subset:
  "set (fst (get_sections_order_for po limit addrs sections_order))
     \<subseteq> set sections_order \<union> {n. \<exists>a. (n, a) \<in> set (section_addr po) \<and> a \<le> limit}"
proof (induction addrs arbitrary: sections_order)
  case Nil
  show ?case by simp
next
  case (Cons sortaddr rest)
  show ?case
  proof (cases "sortaddr > limit")
    case True
    then show ?thesis by simp
  next
    case False
    have step: "{n. (n, sortaddr) \<in> set (section_addr po)}
                  \<subseteq> {n. \<exists>a. (n, a) \<in> set (section_addr po) \<and> a \<le> limit}"
      using False by auto
    from Cons.IH [of "order_add_remaining po sortaddr (order_add_zero_sized po sortaddr sections_order)"]
    have "set (fst (get_sections_order_for po limit (sortaddr # rest) sections_order))
            \<subseteq> set sections_order \<union> {n. (n, sortaddr) \<in> set (section_addr po)}
                \<union> {n. \<exists>a. (n, a) \<in> set (section_addr po) \<and> a \<le> limit}"
      using False by (simp add: order_step_set)
    with step show ?thesis
      by blast
  qed
qed

lemma get_sections_order_for_mono:
  "set sections_order \<subseteq> set (fst (get_sections_order_for po limit addrs sections_order))"
proof (induction addrs arbitrary: sections_order)
  case Nil
  show ?case by simp
next
  case (Cons sortaddr rest)
  show ?case
    using Cons.IH [of "order_add_remaining po sortaddr (order_add_zero_sized po sortaddr sections_order)"]
    by (auto simp: order_step_set)
qed

lemma get_sections_order_for_complete:
  assumes "sorted addrs" "b \<in> set addrs" "b \<le> limit" "(m, b) \<in> set (section_addr po)"
  shows "m \<in> set (fst (get_sections_order_for po limit addrs sections_order))"
  using assms
proof (induction addrs arbitrary: sections_order)
  case Nil
  then show ?case by simp
next
  case (Cons sortaddr rest)
  from Cons.prems(1,2) have "sortaddr \<le> b"
    by auto
  with Cons.prems(3) have le: "\<not> sortaddr > limit"
    by simp
  let ?next = "order_add_remaining po sortaddr (order_add_zero_sized po sortaddr sections_order)"
  show ?case
  proof (cases "b = sortaddr")
    case True
    with Cons.prems(4) have "m \<in> set ?next"
      by (simp add: order_step_set)
    with get_sections_order_for_mono [of ?next po limit rest] le show ?thesis
      by auto
  next
    case False
    with Cons.prems have "sorted rest" "b \<in> set rest"
      by auto
    from Cons.IH [OF this Cons.prems(3,4), of ?next] le show ?thesis
      by simp
  qed
qed

lemma get_sections_order_for_warning:
  "snd (get_sections_order_for po limit addrs sections_order) =
     (case filter (\<lambda>a. a > limit) addrs of [] \<Rightarrow> [] | a # _ \<Rightarrow> [Beyond_Limit a])"
  by (induction addrs arbitrary: sections_order) auto

text \<open>
  A section whose resolved address exceeds the limit, and every section at that or a
  higher address, is left out of the section order; the order is returned all the same (the
  function has no failing path), with the one warning, and it keeps every section at an
  address within the limit.
\<close>

lemma get_sections_order_beyond_limit:
  assumes "distinct (map fst (section_addr po))"
    and "(n, a) \<in> set (section_addr po)" "addrspace_limit < a"
    and "(m, b) \<in> set (section_addr po)" "a \<le> b"
  shows "n \<notin> set (fst (armfw_bin2elf_get_sections_order po addrspace_limit))
       \<and> m \<notin> set (fst (armfw_bin2elf_get_sections_order po addrspace_limit))
       \<and> (\<exists>a0. snd (armfw_bin2elf_get_sections_order po addrspace_limit) = [Beyond_Limit a0]
                \<and> addrspace_limit < a0)
       \<and> (\<forall>k c. (k, c) \<in> set (section_addr po) \<and> c \<le> addrspace_limit
               \<longrightarrow> k \<in> set (fst (armfw_bin2elf_get_sections_order po addrspace_limit)))"
proof -
  let ?addrs = "sort (remdups (map snd (section_addr po)))"
  have omitted: "k \<notin> set (fst (armfw_bin2elf_get_sections_order po addrspace_limit))"
    if k: "(k, c) \<in> set (section_addr po)" "addrspace_limit < c" for k c
  proof
    assume "k \<in> set (fst (armfw_bin2elf_get_sections_order po addrspace_limit))"
    with get_sections_order_for_subset [of po addrspace_limit ?addrs "[]"]
    obtain c' where c': "(k, c') \<in> set (section_addr po)" "c' \<le> addrspace_limit"
      unfolding armfw_bin2elf_get_sections_order_def by auto
    from assms(1) k(1) c'(1) have "c = c'"
      by (rule eq_key_imp_eq_value)
    with k(2) c'(2) show False by simp
  qed
  have n: "n \<notin> set (fst (armfw_bin2elf_get_sections_order po addrspace_limit))"
    using assms(2,3) by (rule omitted)
  have "addrspace_limit < b"
    using assms(3,5) by simp
  with assms(4) have m: "m \<notin> set (fst (armfw_bin2elf_get_sections_order po addrspace_limit))"
    by (rule omitted)
  have "a \<in> set ?addrs"
    using assms(2) by force
  with assms(3) have "filter (\<lambda>a. a > addrspace_limit) ?addrs \<noteq> []"
    by (auto simp: filter_empty_conv)
  then obtain a0 rest where f: "filter (\<lambda>a. a > addrspace_limit) ?addrs = a0 # rest"
    by (cases "filter (\<lambda>a. a > addrspace_limit) ?addrs") auto
  then have "a0 \<in> set (filter (\<lambda>a. a > addrspace_limit) ?addrs)"
    by simp
  then have "addrspace_limit < a0"
    by simp
  with f have w: "\<exists>a0. snd (armfw_bin2elf_get_sections_order po addrspace_limit) = [Beyond_Limit a0]
                \<and> addrspace_limit < a0"
    unfolding armfw_bin2elf_get_sections_order_def get_sections_order_for_warning by simp
  have kept: "\<forall>k c. (k, c) \<in> set (section_addr po) \<and> c \<le> addrspace_limit
               \<longrightarrow> k \<in> set (fst (armfw_bin2elf_get_sections_order po addrspace_limit))"
  proof (intro allI impI, elim conjE)
    fix k c
    assume kc: "(k, c) \<in> set (section_addr po)" "c \<le> addrspace_limit"
    have "sorted ?addrs" by simp
    moreover have "c \<in> set ?addrs" using kc(1) by force
    ultimately show "k \<in> set (fst (armfw_bin2elf_get_sections_order po addrspace_limit))"
      unfolding armfw_bin2elf_get_sections_order_def
      using kc(2,1) by (rule get_sections_order_for_complete)
  qed
  from n m w kept show ?thesis
    by blast
qed

subsection \<open>C6: the size back-fill pass\<close>

text \<open>One round of the loop, in terms of the budget.\<close>

lemma update_sect_sizes_for_step:
  assumes "map_of (section_addr po) sectname = Some addr"
  shows "update_sect_sizes_for po (sectname # rest) limit nxt ws =
     (let b = sect_budget po limit nxt addr in
      if b < 0 then Inl AssertionError
      else case map_of (section_size po) sectname of
         Some sz \<Rightarrow>
           if sz > b then
             update_sect_sizes_for (po\<lparr>section_size := AList.update sectname b (section_size po)\<rparr>)
               rest limit addr (ws @ [Size_Reduced sectname b])
           else update_sect_sizes_for po rest limit addr ws
       | None \<Rightarrow>
           update_sect_sizes_for (po\<lparr>section_size := AList.update sectname b (section_size po)\<rparr>)
             rest limit addr ws)"
  using assms
  by (auto simp: sect_budget_def Let_def min_def split: option.splits)


lemma update_sect_sizes_for_ConsE:
  assumes "update_sect_sizes_for po (sectname # rest) limit nxt ws = Inr r"
  obtains addr po1 ws1 where
    "map_of (section_addr po) sectname = Some addr"
    "0 \<le> sect_budget po limit nxt addr"
    "update_sect_sizes_for po1 rest limit addr ws1 = Inr r"
    "section_addr po1 = section_addr po"
    "expect_sect_align po1 = expect_sect_align po"
    "map_of (section_size po1) =
       (map_of (section_size po))(sectname \<mapsto>
          (case map_of (section_size po) sectname of
             None \<Rightarrow> sect_budget po limit nxt addr
           | Some sz \<Rightarrow> min sz (sect_budget po limit nxt addr)))"
    "ws1 = ws @ (if \<exists>sz. map_of (section_size po) sectname = Some sz
                        \<and> sz > sect_budget po limit nxt addr
                 then [Size_Reduced sectname (sect_budget po limit nxt addr)] else [])"
proof -
  from assms obtain addr where addr: "map_of (section_addr po) sectname = Some addr"
    by (cases "map_of (section_addr po) sectname") simp_all
  define b where "b = sect_budget po limit nxt addr"
  note step = update_sect_sizes_for_step [OF addr, of rest limit nxt ws, folded b_def]
  from assms step have b0: "0 \<le> b"
    by (auto simp: Let_def split: if_splits)
  show thesis
  proof (cases "map_of (section_size po) sectname")
    case None
    let ?po1 = "po\<lparr>section_size := AList.update sectname b (section_size po)\<rparr>"
    from assms step b0 None have "update_sect_sizes_for ?po1 rest limit addr ws = Inr r"
      by (simp add: Let_def)
    then show thesis
      using addr b0 None
      by (intro that [of addr ?po1 ws]) (simp_all add: b_def update_conv')
  next
    case (Some sz)
    show thesis
    proof (cases "sz > b")
      case True
      let ?po1 = "po\<lparr>section_size := AList.update sectname b (section_size po)\<rparr>"
      from assms step b0 Some True have
        "update_sect_sizes_for ?po1 rest limit addr (ws @ [Size_Reduced sectname b]) = Inr r"
        by (simp add: Let_def)
      then show thesis
        using addr b0 Some True
        by (intro that [of addr ?po1 "ws @ [Size_Reduced sectname b]"])
           (simp_all add: b_def update_conv' min_def)
    next
      case False
      from assms step b0 Some False have "update_sect_sizes_for po rest limit addr ws = Inr r"
        by (simp add: Let_def)
      then show thesis
        using addr b0 Some False
        by (intro that [of addr po ws]) (auto simp: b_def min_def)
    qed
  qed
qed

lemma update_sect_sizes_for_frame:
  assumes "update_sect_sizes_for po ns limit nxt ws = Inr (po', ws')"
  shows "section_addr po' = section_addr po \<and> expect_sect_align po' = expect_sect_align po
       \<and> (\<forall>m. m \<notin> set ns \<longrightarrow> map_of (section_size po') m = map_of (section_size po) m)
       \<and> set ws \<subseteq> set ws'
       \<and> (\<forall>w\<in>set ws' - set ws. \<exists>m\<in>set ns. \<exists>d. w = Size_Reduced m d)"
  using assms
proof (induction ns arbitrary: po nxt ws)
  case Nil
  then show ?case by simp
next
  case (Cons n ns)
  from Cons.prems obtain addr po1 ws1 where s:
    "update_sect_sizes_for po1 ns limit addr ws1 = Inr (po', ws')"
    "section_addr po1 = section_addr po"
    "expect_sect_align po1 = expect_sect_align po"
    "map_of (section_size po1) =
       (map_of (section_size po))(n \<mapsto>
          (case map_of (section_size po) n of
             None \<Rightarrow> sect_budget po limit nxt addr
           | Some sz \<Rightarrow> min sz (sect_budget po limit nxt addr)))"
    "ws1 = ws @ (if \<exists>sz. map_of (section_size po) n = Some sz
                        \<and> sz > sect_budget po limit nxt addr
                 then [Size_Reduced n (sect_budget po limit nxt addr)] else [])"
    by (rule update_sect_sizes_for_ConsE)
  from Cons.IH [OF s(1)] have ih:
    "section_addr po' = section_addr po1" "expect_sect_align po' = expect_sect_align po1"
    "\<forall>m. m \<notin> set ns \<longrightarrow> map_of (section_size po') m = map_of (section_size po1) m"
    "set ws1 \<subseteq> set ws'"
    "\<forall>w\<in>set ws' - set ws1. \<exists>m\<in>set ns. \<exists>d. w = Size_Reduced m d"
    by simp_all
  have a: "section_addr po' = section_addr po \<and> expect_sect_align po' = expect_sect_align po"
    using ih(1,2) s(2,3) by simp
  have b: "\<forall>m. m \<notin> set (n # ns) \<longrightarrow> map_of (section_size po') m = map_of (section_size po) m"
    using ih(3) s(4) by simp
  have c: "set ws \<subseteq> set ws'"
    using ih(4) s(5) by auto
  have d: "\<forall>w\<in>set ws' - set ws. \<exists>m\<in>set (n # ns). \<exists>d. w = Size_Reduced m d"
  proof
    fix w
    assume w: "w \<in> set ws' - set ws"
    show "\<exists>m\<in>set (n # ns). \<exists>d. w = Size_Reduced m d"
    proof (cases "w \<in> set ws1")
      case True
      with w s(5) have "w = Size_Reduced n (sect_budget po limit nxt addr)"
        by (auto split: if_splits)
      then show ?thesis by auto
    next
      case False
      with w ih(5) show ?thesis by auto
    qed
  qed
  from a b c d show ?case
    by blast
qed

lemma update_sect_sizes_for_at:
  assumes "update_sect_sizes_for po (ps @ sectname # qs) limit nxt ws = Inr (po', ws')"
    and "distinct (ps @ sectname # qs)"
    and "\<And>d. Size_Reduced sectname d \<notin> set ws"
  shows "\<exists>addr nx. map_of (section_addr po) sectname = Some addr
       \<and> (if ps = [] then Some nxt else map_of (section_addr po) (last ps)) = Some nx
       \<and> 0 \<le> sect_budget po limit nx addr
       \<and> map_of (section_size po') sectname =
           Some (case map_of (section_size po) sectname of
                   None \<Rightarrow> sect_budget po limit nx addr
                 | Some sz \<Rightarrow> min sz (sect_budget po limit nx addr))
       \<and> (Size_Reduced sectname (sect_budget po limit nx addr) \<in> set ws'
            \<longleftrightarrow> (\<exists>sz. map_of (section_size po) sectname = Some sz
                     \<and> sz > sect_budget po limit nx addr))"
  using assms
proof (induction ps arbitrary: po nxt ws)
  case Nil
  from Nil.prems(1) have "update_sect_sizes_for po (sectname # qs) limit nxt ws = Inr (po', ws')"
    by simp
  then obtain addr po1 ws1 where s:
    "map_of (section_addr po) sectname = Some addr"
    "0 \<le> sect_budget po limit nxt addr"
    "update_sect_sizes_for po1 qs limit addr ws1 = Inr (po', ws')"
    "section_addr po1 = section_addr po"
    "expect_sect_align po1 = expect_sect_align po"
    "map_of (section_size po1) =
       (map_of (section_size po))(sectname \<mapsto>
          (case map_of (section_size po) sectname of
             None \<Rightarrow> sect_budget po limit nxt addr
           | Some sz \<Rightarrow> min sz (sect_budget po limit nxt addr)))"
    "ws1 = ws @ (if \<exists>sz. map_of (section_size po) sectname = Some sz
                        \<and> sz > sect_budget po limit nxt addr
                 then [Size_Reduced sectname (sect_budget po limit nxt addr)] else [])"
    by (rule update_sect_sizes_for_ConsE)
  from update_sect_sizes_for_frame [OF s(3)] have fr:
    "\<forall>m. m \<notin> set qs \<longrightarrow> map_of (section_size po') m = map_of (section_size po1) m"
    "set ws1 \<subseteq> set ws'"
    "\<forall>w\<in>set ws' - set ws1. \<exists>m\<in>set qs. \<exists>d. w = Size_Reduced m d"
    by simp_all
  from Nil.prems(2) have nq: "sectname \<notin> set qs"
    by simp
  with fr(1) s(6) have size: "map_of (section_size po') sectname =
           Some (case map_of (section_size po) sectname of
                   None \<Rightarrow> sect_budget po limit nxt addr
                 | Some sz \<Rightarrow> min sz (sect_budget po limit nxt addr))"
    by simp
  have warn: "Size_Reduced sectname (sect_budget po limit nxt addr) \<in> set ws'
            \<longleftrightarrow> (\<exists>sz. map_of (section_size po) sectname = Some sz
                     \<and> sz > sect_budget po limit nxt addr)"
  proof
    assume in_ws': "Size_Reduced sectname (sect_budget po limit nxt addr) \<in> set ws'"
    have "Size_Reduced sectname (sect_budget po limit nxt addr) \<in> set ws1"
    proof (rule ccontr)
      assume "Size_Reduced sectname (sect_budget po limit nxt addr) \<notin> set ws1"
      with in_ws' fr(3) nq show False by auto
    qed
    with s(7) Nil.prems(3) show "\<exists>sz. map_of (section_size po) sectname = Some sz
                     \<and> sz > sect_budget po limit nxt addr"
      by (auto split: if_splits)
  next
    assume "\<exists>sz. map_of (section_size po) sectname = Some sz
                     \<and> sz > sect_budget po limit nxt addr"
    with s(7) have "Size_Reduced sectname (sect_budget po limit nxt addr) \<in> set ws1"
      by simp
    with fr(2) show "Size_Reduced sectname (sect_budget po limit nxt addr) \<in> set ws'"
      by auto
  qed
  from s(1,2) size warn show ?case
    by simp
next
  case (Cons p ps)
  from Cons.prems(1) have "update_sect_sizes_for po (p # (ps @ sectname # qs)) limit nxt ws = Inr (po', ws')"
    by simp
  then obtain addr po1 ws1 where s:
    "map_of (section_addr po) p = Some addr"
    "update_sect_sizes_for po1 (ps @ sectname # qs) limit addr ws1 = Inr (po', ws')"
    "section_addr po1 = section_addr po"
    "expect_sect_align po1 = expect_sect_align po"
    "map_of (section_size po1) =
       (map_of (section_size po))(p \<mapsto>
          (case map_of (section_size po) p of
             None \<Rightarrow> sect_budget po limit nxt addr
           | Some sz \<Rightarrow> min sz (sect_budget po limit nxt addr)))"
    "ws1 = ws @ (if \<exists>sz. map_of (section_size po) p = Some sz
                        \<and> sz > sect_budget po limit nxt addr
                 then [Size_Reduced p (sect_budget po limit nxt addr)] else [])"
    by (rule update_sect_sizes_for_ConsE)
  from Cons.prems(2) have ne: "p \<noteq> sectname" and dist: "distinct (ps @ sectname # qs)"
    by auto
  have nw: "Size_Reduced sectname d \<notin> set ws1" for d
    using Cons.prems(3) [of d] s(6) ne by (auto split: if_splits)
  have same_size: "map_of (section_size po1) sectname = map_of (section_size po) sectname"
    using s(5) ne by simp
  have same_budget: "sect_budget po1 limit nx a = sect_budget po limit nx a" for nx a
    using s(4) by (simp add: sect_budget_def)
  have nxt_eq: "(if ps = [] then Some addr else map_of (section_addr po1) (last ps))
                 = (if p # ps = [] then Some nxt else map_of (section_addr po) (last (p # ps)))"
    using s(1,3) by simp
  from Cons.IH [OF s(2) dist nw] show ?case
    unfolding same_size same_budget s(3) nxt_eq [unfolded s(3)] by simp
qed

text \<open>
  C6, as stated, on a single \<^verbatim>\<open>.text\<close> section at \<open>0x1000000\<close> without a size, under
  the default base address and address space length: the highest section is given
  \<open>0x2000001\<close>, the gap to \<open>baseaddr + addrspacelen + 1\<close>, which is not the gap to the
  address space limit less one section alignment unit, in any reading of that limit
  (\<open>2 ^ 32\<close>, \<open>2 ^ 32 - 1\<close>, or the end of the configured address space).
\<close>

theorem update_sect_sizes_highest_counterexample:
  "armfw_bin2elf_update_sect_sizes po_text_only [''.text''] (2 ^ 32 - 1)
     = Inr (po_text_only\<lparr>section_size := [(''.text'', 0x2000001)]\<rparr>, [])
   \<and> map_of (section_size po_text_only) ''.text'' = None
   \<and> (0x2000001 :: int) \<noteq> (2 ^ 32 - 1) + 1 - expect_sect_align po_text_only - 0x1000000
   \<and> (0x2000001 :: int) \<noteq> (2 ^ 32 - 1) - expect_sect_align po_text_only - 0x1000000
   \<and> (0x2000001 :: int) \<noteq> baseaddr po_text_only + addrspacelen po_text_only
                               - expect_sect_align po_text_only - 0x1000000"
  by code_simp

text \<open>
  C6, amended: the pass, when it returns, has given every section of the order (processed
  in reverse) a budget that is not negative: the gap from the section's address to the
  address of the section that follows it in the order, or to
  \<open>baseaddr + addrspacelen + 1\<close> for the last one, cut in both cases at the address space
  limit plus one less one section alignment unit. A section without a size is assigned
  exactly the budget; a size above the budget is clamped down exactly to the budget, and
  the warning for it is emitted then and only then; a size within the budget is kept.
\<close>

theorem update_sect_sizes_budget:
  assumes "armfw_bin2elf_update_sect_sizes po (lower @ sectname # higher) addrspace_limit = Inr (po', ws)"
    and "distinct (lower @ sectname # higher)"
  shows "\<exists>addr nx. map_of (section_addr po) sectname = Some addr
       \<and> sectaddr_next_of po higher = Some nx
       \<and> 0 \<le> sect_budget po addrspace_limit nx addr
       \<and> map_of (section_size po') sectname =
           Some (case map_of (section_size po) sectname of
                   None \<Rightarrow> sect_budget po addrspace_limit nx addr
                 | Some sz \<Rightarrow> min sz (sect_budget po addrspace_limit nx addr))
       \<and> (Size_Reduced sectname (sect_budget po addrspace_limit nx addr) \<in> set ws
            \<longleftrightarrow> (\<exists>sz. map_of (section_size po) sectname = Some sz
                     \<and> sz > sect_budget po addrspace_limit nx addr))"
proof -
  have run: "update_sect_sizes_for po (rev higher @ sectname # rev lower) addrspace_limit
               (baseaddr po + addrspacelen po + 1) [] = Inr (po', ws)"
    using assms(1) by (simp add: armfw_bin2elf_update_sect_sizes_def)
  have dist: "distinct (rev higher @ sectname # rev lower)"
    using assms(2) by auto
  have nxt: "(if rev higher = [] then Some (baseaddr po + addrspacelen po + 1)
              else map_of (section_addr po) (last (rev higher)))
             = sectaddr_next_of po higher"
    by (cases higher) (simp_all add: sectaddr_next_of_def)
  have "\<And>d. Size_Reduced sectname d \<notin> set []"
    by simp
  from update_sect_sizes_for_at [OF run dist this] show ?thesis
    unfolding nxt .
qed

theorem update_sect_sizes_budget_witness:
  "\<exists>addr nx. map_of (section_addr po_overlap) ''.text'' = Some addr
     \<and> sectaddr_next_of po_overlap [''.data''] = Some nx
     \<and> 0 \<le> sect_budget po_overlap (2 ^ 32 - 1) nx addr
     \<and> map_of [(''.text'', 0x1000), (''.data'', 0x1FFF001 :: int)] ''.text'' =
         Some (case map_of (section_size po_overlap) ''.text'' of
                 None \<Rightarrow> sect_budget po_overlap (2 ^ 32 - 1) nx addr
               | Some sz \<Rightarrow> min sz (sect_budget po_overlap (2 ^ 32 - 1) nx addr))
     \<and> (Size_Reduced ''.text'' (sect_budget po_overlap (2 ^ 32 - 1) nx addr)
           \<in> set [Size_Reduced ''.text'' 0x1000]
          \<longleftrightarrow> (\<exists>sz. map_of (section_size po_overlap) ''.text'' = Some sz
                   \<and> sz > sect_budget po_overlap (2 ^ 32 - 1) nx addr))"
proof -
  have run: "armfw_bin2elf_update_sect_sizes po_overlap ([] @ ''.text'' # [''.data'']) (2 ^ 32 - 1)
               = Inr (po_overlap\<lparr>section_size := [(''.text'', 0x1000), (''.data'', 0x1FFF001)]\<rparr>,
                      [Size_Reduced ''.text'' 0x1000])"
    by code_simp
  have dist: "distinct ([] @ ''.text'' # [''.data''])"
    by simp
  from update_sect_sizes_budget [OF run dist] show ?thesis
    by simp
qed

subsection \<open>C2: the padding after a run\<close>

lemma padding_all_zero_iff:
  "\<not> (b \<noteq> 0 \<or> card (set (b # bs)) > 1) \<longleftrightarrow> (\<forall>x\<in>set (b # bs). x = (0::byte))"
proof
  assume a: "\<not> (b \<noteq> 0 \<or> card (set (b # bs)) > 1)"
  then have b0: "b = 0"
    by blast
  from a have "card (set (b # bs)) \<le> Suc 0"
    by linarith
  then have all_eq: "\<forall>x\<in>set (b # bs). \<forall>y\<in>set (b # bs). x = y"
    by (subst (asm) card_le_Suc0_iff_eq) simp_all
  show "\<forall>x\<in>set (b # bs). x = 0"
  proof
    fix x
    assume "x \<in> set (b # bs)"
    moreover have "b \<in> set (b # bs)"
      by simp
    ultimately have "x = b"
      using all_eq by blast
    with b0 show "x = 0"
      by (simp only:)
  qed
next
  assume z: "\<forall>x\<in>set (b # bs). x = 0"
  have mem: "b \<in> set (b # bs)"
    by simp
  with z have b0: "b = 0"
    by blast
  from z have "set (b # bs) \<subseteq> {0}"
    by blast
  moreover from mem b0 have "{0} \<subseteq> set (b # bs)"
    by blast
  ultimately have "set (b # bs) = {0}"
    by (rule subset_antisym)
  then have "card (set (b # bs)) = card {0::byte}"
    by (rule arg_cong)
  also have "\<dots> = 1"
    by simp
  finally have "card (set (b # bs)) = 1" .
  with b0 show "\<not> (b \<noteq> 0 \<or> card (set (b # bs)) > 1)"
    by linarith
qed

text \<open>
  C2, as stated, on an image with one proper record at offset 16 followed by 8 bytes
  \<open>0xFF\<close>: the run of one entry ends at offset 24, off the 16-byte boundary, the padding
  up to the boundary is a uniform fill of the single value \<open>0xFF\<close>, and the candidate is
  discarded.
\<close>

theorem exidx_padding_ff_counterexample:
  "exidx_entries_while po_default image_ff_padding 0x1000000 2 16 16 0 = Inr (False, 24, 1)
   \<and> (0::int) < 24 mod 16
   \<and> file_read image_ff_padding 24 (16 - 24 mod 16) = Inr (replicate 8 0xFF)
   \<and> card (set (replicate 8 (0xFF::byte))) = 1
   \<and> exidx_candidate po_default image_ff_padding 0x1000000 2 16 16 = Inr (False, 0)"
proof (intro conjI)
  show "exidx_entries_while po_default image_ff_padding 0x1000000 2 16 16 0 = Inr (False, 24, 1)"
    by code_simp
  show "(0::int) < 24 mod 16"
    by simp
  show "file_read image_ff_padding 24 (16 - 24 mod 16) = Inr (replicate 8 0xFF)"
    by code_simp
  show "card (set (replicate 8 (0xFF::byte))) = 1"
    by simp
  show "exidx_candidate po_default image_ff_padding 0x1000000 2 16 16 = Inr (False, 0)"
    by code_simp
qed

text \<open>
  C2, amended: for every nonempty run of proper entries that an improper record ends (not
  the end of the input) off a section alignment boundary, the scanner accepts the candidate
  if and only if the bytes the image holds between the end of the last proper record and
  the next section alignment boundary are all zero; any other padding, uniform or not,
  discards the match.
\<close>

theorem exidx_padding_zero_fill:
  assumes "8 \<le> sect_align"
    and "exidx_entries_while po fwpartfile memaddr_base func_align pos pos 0
           = Inr (False, entry_pos, entry_count)"
    and "0 < entry_count" "0 < entry_pos mod sect_align"
  shows "\<exists>padding. file_read fwpartfile entry_pos (sect_align - entry_pos mod sect_align) = Inr padding
           \<and> padding \<noteq> []
           \<and> exidx_candidate po fwpartfile memaddr_base func_align sect_align pos
               = Inr (False, if \<forall>b\<in>set padding. b = 0 then entry_count else 0)"
proof -
  from exidx_entries_while_no_eof [OF assms(2)]
  have rng: "0 \<le> entry_pos \<and> entry_pos + 8 \<le> int (length fwpartfile)"
    by linarith
  define k where "k = sect_align - entry_pos mod sect_align"
  have "entry_pos mod sect_align < sect_align"
    using assms(1) by (intro pos_mod_bound) simp
  then have k: "0 < k"
    by (simp add: k_def)
  define padding where "padding = take (nat k) (drop (nat entry_pos) fwpartfile)"
  have rd: "file_read fwpartfile entry_pos k = Inr padding"
    using rng k by (simp add: file_read_def padding_def)
  have "nat entry_pos < length fwpartfile"
    using rng by linarith
  then have "0 < length padding"
    using k by (simp add: padding_def)
  then obtain b bs where pad: "padding = b # bs"
    by (cases padding) auto
  have "exidx_padding_check fwpartfile sect_align entry_pos entry_count
          = Inr (if \<forall>x\<in>set padding. x = 0 then entry_count else 0)"
  proof (cases "\<forall>x\<in>set padding. x = 0")
    case True
    then have "\<forall>x\<in>set (b # bs). x = 0"
      unfolding pad .
    with padding_all_zero_iff [of b bs] have "\<not> (b \<noteq> 0 \<or> card (set (b # bs)) > 1)"
      by blast
    then have "b = 0" "\<not> card (set (b # bs)) > 1"
      by blast+
    with True show ?thesis
      unfolding exidx_padding_check_def
      using assms(1,3,4) rd [unfolded k_def] by (simp add: pad)
  next
    case False
    then have "\<not> (\<forall>x\<in>set (b # bs). x = 0)"
      unfolding pad .
    with padding_all_zero_iff [of b bs] have "b \<noteq> 0 \<or> card (set (b # bs)) > 1"
      by blast
    with False show ?thesis
      unfolding exidx_padding_check_def
      using assms(1,3,4) rd [unfolded k_def] by (auto simp: pad)
  qed
  then have "exidx_candidate po fwpartfile memaddr_base func_align sect_align pos
               = Inr (False, if \<forall>b\<in>set padding. b = 0 then entry_count else 0)"
    using assms(2) by (simp add: exidx_candidate_def)
  with rd pad show ?thesis
    unfolding k_def by blast
qed

theorem exidx_padding_zero_fill_witness:
  "\<exists>padding. file_read image_two_runs 24 (16 - 24 mod 16) = Inr padding
     \<and> padding \<noteq> []
     \<and> exidx_candidate po_default image_two_runs 0x1000000 2 16 16
         = Inr (False, if \<forall>b\<in>set padding. b = 0 then 1 else 0)"
proof -
  have 1: "(8::int) \<le> 16"
    by simp
  have 2: "exidx_entries_while po_default image_two_runs 0x1000000 2 16 16 0 = Inr (False, 24, 1)"
    by code_simp
  have 3: "(0::int) < 1"
    by simp
  have 4: "(0::int) < 24 mod 16"
    by simp
  show ?thesis
    by (rule exidx_padding_zero_fill [OF 1 2 3 4])
qed

subsection \<open>C1: the scanner prefers the last match\<close>





subsection \<open>C9: sections beyond the address space limit\<close>

text \<open>
  The passes after the section order look up the sections of the order only: with the
  sections beyond the limit taken out of \<^verbatim>\<open>po.section_addr\<close>, the order is the same
  and so is what the size, alignment, position and builder passes compute.
\<close>

lemma foldl_filter_skip:
  assumes "\<And>acc x. \<not> P x \<Longrightarrow> f acc x = acc"
  shows "foldl f acc (filter P xs) = foldl f acc xs"
  using assms by (induction xs arbitrary: acc) simp_all

lemma within_limit_size: "section_size (within_limit po limit) = section_size po"
  by (simp add: within_limit_def)

lemma within_limit_addr:
  "section_addr (within_limit po limit)
     = filter (\<lambda>(sectname, addr). addr \<le> limit) (section_addr po)"
  by (simp add: within_limit_def)

lemma order_add_zero_sized_within:
  assumes "sortaddr \<le> limit"
  shows "order_add_zero_sized (within_limit po limit) sortaddr acc = order_add_zero_sized po sortaddr acc"
proof -
  have "foldl (\<lambda>acc (sectname, addr).
              if addr = sortaddr then
                (case map_of (section_size po) sectname of
                   None \<Rightarrow> acc
                 | Some sz \<Rightarrow> if sz < 1 then acc @ [sectname] else acc)
              else acc)
          acc (filter (\<lambda>(sectname, addr). addr \<le> limit) (section_addr po))
        = foldl (\<lambda>acc (sectname, addr).
              if addr = sortaddr then
                (case map_of (section_size po) sectname of
                   None \<Rightarrow> acc
                 | Some sz \<Rightarrow> if sz < 1 then acc @ [sectname] else acc)
              else acc)
          acc (section_addr po)"
    using assms by (intro foldl_filter_skip) auto
  then show ?thesis
    unfolding order_add_zero_sized_def within_limit_size within_limit_addr .
qed

lemma order_add_remaining_within:
  assumes "sortaddr \<le> limit"
  shows "order_add_remaining (within_limit po limit) sortaddr acc = order_add_remaining po sortaddr acc"
proof -
  have "foldl (\<lambda>acc (sectname, addr).
              if addr = sortaddr \<and> sectname \<notin> set acc then acc @ [sectname] else acc)
          acc (filter (\<lambda>(sectname, addr). addr \<le> limit) (section_addr po))
        = foldl (\<lambda>acc (sectname, addr).
              if addr = sortaddr \<and> sectname \<notin> set acc then acc @ [sectname] else acc)
          acc (section_addr po)"
    using assms by (intro foldl_filter_skip) auto
  then show ?thesis
    unfolding order_add_remaining_def within_limit_addr .
qed

lemma get_sections_order_for_within:
  "get_sections_order_for (within_limit po limit) limit addrs acc
     = get_sections_order_for po limit addrs acc"
  by (induction addrs arbitrary: acc)
     (simp_all add: order_add_zero_sized_within order_add_remaining_within)

lemma get_sections_order_for_filter:
  assumes "sorted addrs"
  shows "get_sections_order_for po limit (filter (\<lambda>a. a \<le> limit) addrs) acc
           = (fst (get_sections_order_for po limit addrs acc), [])"
  using assms
proof (induction addrs arbitrary: acc)
  case Nil
  show ?case by simp
next
  case (Cons a rest)
  show ?case
  proof (cases "a > limit")
    case True
    with Cons.prems have "\<forall>x\<in>set rest. \<not> x \<le> limit"
      by auto
    then have "filter (\<lambda>a. a \<le> limit) rest = []"
      by (simp add: filter_empty_conv)
    with True show ?thesis by simp
  next
    case False
    from Cons.prems have "sorted rest" by simp
    from Cons.IH [OF this] False show ?thesis by simp
  qed
qed

lemma within_limit_addrs:
  "sort (remdups (map snd (section_addr (within_limit po limit))))
     = filter (\<lambda>a. a \<le> limit) (sort (remdups (map snd (section_addr po))))"
proof -
  have "map snd (filter (\<lambda>(n, a). a \<le> limit) (section_addr po))
          = filter (\<lambda>a. a \<le> limit) (map snd (section_addr po))"
    by (induction "section_addr po") (auto simp: filter_map comp_def case_prod_beta)
  then show ?thesis
    by (simp add: within_limit_def remdups_filter filter_sort)
qed

lemma get_sections_order_within:
  "armfw_bin2elf_get_sections_order (within_limit po limit) limit
     = (fst (armfw_bin2elf_get_sections_order po limit), [])"
  unfolding armfw_bin2elf_get_sections_order_def within_limit_addrs get_sections_order_for_within
  by (rule get_sections_order_for_filter) simp


lemma within_limit_lookup:
  assumes "distinct (map fst (section_addr po))"
    and "sectname \<in> set (fst (armfw_bin2elf_get_sections_order po limit))"
  shows "map_of (section_addr (within_limit po limit)) sectname = map_of (section_addr po) sectname"
proof -
  from assms(2) get_sections_order_for_subset
         [of po limit "sort (remdups (map snd (section_addr po)))" "[]"]
  obtain a where a: "(sectname, a) \<in> set (section_addr po)" "a \<le> limit"
    unfolding armfw_bin2elf_get_sections_order_def by auto
  from assms(1) a(1) have "map_of (section_addr po) sectname = Some a"
    by (rule map_of_is_SomeI)
  moreover from assms(1) have "distinct (map fst (filter (\<lambda>(n, a). a \<le> limit) (section_addr po)))"
    by (rule distinct_map_filter)
  then have "map_of (filter (\<lambda>(n, a). a \<le> limit) (section_addr po)) sectname = Some a"
    using a by (intro map_of_is_SomeI) simp_all
  ultimately show ?thesis
    by (simp add: within_limit_addr)
qed

lemma update_sect_sizes_for_addr_cong:
  assumes "\<forall>n\<in>set ns. map_of A n = map_of (section_addr po) n"
  shows "update_sect_sizes_for (po\<lparr>section_addr := A\<rparr>) ns limit nxt ws
           = (case update_sect_sizes_for po ns limit nxt ws of
                Inl e \<Rightarrow> Inl e
              | Inr (po1, w) \<Rightarrow> Inr (po1\<lparr>section_addr := A\<rparr>, w))"
  using assms
proof (induction ns arbitrary: po nxt ws)
  case Nil
  show ?case by simp
next
  case (Cons n ns)
  have here: "map_of A n = map_of (section_addr po) n"
    using Cons.prems by simp
  have rest: "\<forall>k\<in>set ns. map_of A k = map_of (section_addr (po\<lparr>section_size := sz\<rparr>)) k" for sz
    using Cons.prems by simp
  have rest0: "\<forall>k\<in>set ns. map_of A k = map_of (section_addr po) k"
    using Cons.prems by simp
  have ih1: "update_sect_sizes_for (po\<lparr>section_addr := A, section_size := sz\<rparr>) ns limit nx w
               = (case update_sect_sizes_for (po\<lparr>section_size := sz\<rparr>) ns limit nx w of
                    Inl e \<Rightarrow> Inl e
                  | Inr (po1, w) \<Rightarrow> Inr (po1\<lparr>section_addr := A\<rparr>, w))" for sz nx w
  proof -
    have "po\<lparr>section_addr := A, section_size := sz\<rparr> = po\<lparr>section_size := sz, section_addr := A\<rparr>"
      by (cases po) simp
    with Cons.IH [OF rest, of sz nx w] show ?thesis
      by (simp only:)
  qed
  note ih0 = Cons.IH [OF rest0]
  show ?case
    by (simp add: here ih0 ih1 Let_def split: option.splits)
qed

lemma section_align_addr_cong:
  assumes "map_of A n = map_of (section_addr po) n"
  shows "section_align (po\<lparr>section_addr := A\<rparr>) n = section_align po n"
  using assms by (simp add: section_align_def split: option.splits sum.splits)

lemma get_sections_align_for_addr_cong:
  assumes "\<forall>n\<in>set ns. map_of A n = map_of (section_addr po) n"
  shows "get_sections_align_for (po\<lparr>section_addr := A\<rparr>) ns acc = get_sections_align_for po ns acc"
  using assms
  by (induction ns arbitrary: acc)
     (simp_all add: section_align_addr_cong split: option.splits sum.splits)

lemma get_sections_pos_for_addr_cong:
  assumes "\<forall>n\<in>set ns. map_of A n = map_of (section_addr po) n"
  shows "get_sections_pos_for (po\<lparr>section_addr := A\<rparr>) ns acc = get_sections_pos_for po ns acc"
  using assms
  by (induction ns arbitrary: acc) (simp_all add: Let_def split: option.splits sum.splits)

lemma update_elffile_section_addr_cong:
  assumes "map_of A n = map_of (section_addr po) n"
  shows "update_elffile_section (po\<lparr>section_addr := A\<rparr>) f sp sa n sect
           = update_elffile_section po f sp sa n sect"
  using assms by (simp add: update_elffile_section_def Let_def split: option.splits sum.splits)

lemma update_elffile_for_addr_cong:
  assumes "\<forall>n\<in>set ns. map_of A n = map_of (section_addr po) n"
  shows "update_elffile_for (po\<lparr>section_addr := A\<rparr>) f sp sa ns elfobj
           = update_elffile_for po f sp sa ns elfobj"
  using assms
  by (induction ns arbitrary: elfobj)
     (simp_all add: update_elffile_step_def update_elffile_section_addr_cong
        split: option.splits sum.splits prod.splits)

text \<open>
  The builder changes and inserts descriptors of the names it is given only: the
  descriptors of any other name are those of the template.
\<close>

lemma get_section_by_name_name:
  "get_section_by_name elfobj sectname = Some sect \<Longrightarrow> name sect = sectname"
  by (auto simp: get_section_by_name_def find_Some_iff)

lemma update_elffile_section_name:
  "update_elffile_section po f sp sa sectname sect = Inr sect' \<Longrightarrow> name sect' = name sect"
  by (auto simp: update_elffile_section_def set_data_def Let_def
           split: option.splits sum.splits if_splits)

lemma filter_insert_after:
  "name sect \<noteq> n
   \<Longrightarrow> filter (\<lambda>s. name s = n) (insert_after sectname_prev sect ss) = filter (\<lambda>s. name s = n) ss"
  by (induction ss) simp_all

lemma filter_replace_named:
  "sectname \<noteq> n \<Longrightarrow> name sect \<noteq> n
   \<Longrightarrow> filter (\<lambda>s. name s = n) (replace_named sectname sect ss) = filter (\<lambda>s. name s = n) ss"
  by (induction ss) simp_all

lemma elffile_locate_section_other:
  assumes "elffile_locate_section elfobj sectname = Inr (elfobj1, sect)"
  shows "name sect = sectname
       \<and> (sectname \<noteq> n \<longrightarrow> filter (\<lambda>s. name s = n) (sections elfobj1)
                                  = filter (\<lambda>s. name s = n) (sections elfobj))"
proof (cases "get_section_by_name elfobj sectname")
  case (Some s)
  with assms have "elfobj1 = elfobj" "sect = s"
    by (simp_all add: elffile_locate_section_def)
  with Some show ?thesis
    by (simp add: get_section_by_name_name)
next
  case None
  with assms obtain nm num sect0 sectname_prev where
    m: "get_section_by_name elfobj nm = Some sect0"
       "sect = sect0\<lparr>name := sectname\<rparr>"
       "elfobj1 = insert_section_after elfobj sectname_prev sect"
    by (auto simp: elffile_locate_section_def Let_def split: option.splits)
  then show ?thesis
    by (simp add: insert_section_after_def filter_insert_after)
qed

lemma update_elffile_step_other:
  assumes "update_elffile_step po f sp sa elfobj sectname = Inr elfobj'" "sectname \<noteq> n"
  shows "filter (\<lambda>s. name s = n) (sections elfobj') = filter (\<lambda>s. name s = n) (sections elfobj)"
proof -
  from assms(1) obtain elfobj1 sect sect' where
    s: "elffile_locate_section elfobj sectname = Inr (elfobj1, sect)"
       "update_elffile_section po f sp sa sectname sect = Inr sect'"
       "elfobj' = set_section_by_name elfobj1 sectname sect'"
    by (auto simp: update_elffile_step_def split: sum.splits)
  from elffile_locate_section_other [OF s(1), of n] assms(2) have
    l: "name sect = sectname"
       "filter (\<lambda>s. name s = n) (sections elfobj1) = filter (\<lambda>s. name s = n) (sections elfobj)"
    by simp_all
  from update_elffile_section_name [OF s(2)] l(1) assms(2) have "name sect' \<noteq> n"
    by simp
  with assms(2) l(2) s(3) show ?thesis
    by (simp add: set_section_by_name_def filter_replace_named)
qed

lemma update_elffile_for_other:
  assumes "update_elffile_for po f sp sa ns elfobj = Inr elfobj'" "n \<notin> set ns"
  shows "filter (\<lambda>s. name s = n) (sections elfobj') = filter (\<lambda>s. name s = n) (sections elfobj)"
  using assms
proof (induction ns arbitrary: elfobj)
  case Nil
  then show ?case by simp
next
  case (Cons k ns)
  from Cons.prems(1) obtain elfobj1 where
    s: "update_elffile_step po f sp sa elfobj k = Inr elfobj1"
       "update_elffile_for po f sp sa ns elfobj1 = Inr elfobj'"
    by (auto split: sum.splits)
  from Cons.prems(2) have "k \<noteq> n" "n \<notin> set ns"
    by auto
  with Cons.IH [OF s(2)] update_elffile_step_other [OF s(1)] show ?case
    by simp
qed

lemma armfw_bin2elf_update_elffile_other:
  assumes "armfw_bin2elf_update_elffile po tmplt f sections_order sp sa = Inr elfobj"
    and "n \<notin> set sections_order"
  shows "filter (\<lambda>s. name s = n) (sections elfobj) = filter (\<lambda>s. name s = n) (sections tmplt)"
  using update_elffile_for_other [OF assms(1) [unfolded armfw_bin2elf_update_elffile_def] assms(2)]
  by simp

lemma armfw_bin2elf_convert_untouched:
  assumes "armfw_bin2elf_convert po f tmplt limit = Inr (elfobj, ws)"
    and "n \<notin> set (fst (armfw_bin2elf_get_sections_order po limit))"
  shows "filter (\<lambda>s. name s = n) (sections elfobj) = filter (\<lambda>s. name s = n) (sections tmplt)"
proof -
  obtain sections_order w1 where o: "armfw_bin2elf_get_sections_order po limit = (sections_order, w1)"
    by (cases "armfw_bin2elf_get_sections_order po limit")
  from assms(1) o obtain po1 sp sa where
    "armfw_bin2elf_update_elffile po1 tmplt f sections_order sp sa = Inr elfobj"
    by (auto simp: armfw_bin2elf_convert_def split: sum.splits prod.splits)
  moreover from assms(2) o have "n \<notin> set sections_order"
    by simp
  ultimately show ?thesis
    by (rule armfw_bin2elf_update_elffile_other)
qed

lemma armfw_bin2elf_convert_within:
  assumes "distinct (map fst (section_addr po))"
  shows "armfw_bin2elf_convert po f tmplt limit
           = (case armfw_bin2elf_convert (within_limit po limit) f tmplt limit of
                Inl e \<Rightarrow> Inl e
              | Inr (elfobj, ws) \<Rightarrow>
                 Inr (elfobj, snd (armfw_bin2elf_get_sections_order po limit) @ ws))"
proof -
  obtain sections_order w1 where o: "armfw_bin2elf_get_sections_order po limit = (sections_order, w1)"
    by (cases "armfw_bin2elf_get_sections_order po limit")
  define A where "A = section_addr (within_limit po limit)"
  have wl: "within_limit po limit = po\<lparr>section_addr := A\<rparr>"
    by (simp add: A_def within_limit_def)
  have o': "armfw_bin2elf_get_sections_order (po\<lparr>section_addr := A\<rparr>) limit = (sections_order, [])"
    using get_sections_order_within [of po limit] o by (simp add: wl)
  have agree: "\<forall>n\<in>set sections_order. map_of A n = map_of (section_addr po) n"
    using within_limit_lookup [OF assms, of _ limit] o by (simp add: A_def)
  then have agree_rev: "\<forall>n\<in>set (rev sections_order). map_of A n = map_of (section_addr po) n"
    by simp
  have sizes: "armfw_bin2elf_update_sect_sizes (po\<lparr>section_addr := A\<rparr>) sections_order limit
                 = (case armfw_bin2elf_update_sect_sizes po sections_order limit of
                      Inl e \<Rightarrow> Inl e
                    | Inr (po1, w) \<Rightarrow> Inr (po1\<lparr>section_addr := A\<rparr>, w))"
    unfolding armfw_bin2elf_update_sect_sizes_def
    using update_sect_sizes_for_addr_cong [OF agree_rev] by simp
  show ?thesis
  proof (cases "armfw_bin2elf_update_sect_sizes po sections_order limit")
    case (Inl e)
    with o o' sizes show ?thesis
      by (simp add: armfw_bin2elf_convert_def wl)
  next
    case (Inr r)
    obtain po1 w2 where r: "r = (po1, w2)"
      by (cases r)
    from Inr r have "update_sect_sizes_for po (rev sections_order) limit
                       (baseaddr po + addrspacelen po + 1) [] = Inr (po1, w2)"
      by (simp add: armfw_bin2elf_update_sect_sizes_def)
    from update_sect_sizes_for_frame [OF this] have "section_addr po1 = section_addr po"
      by simp
    with agree have agree1: "\<forall>n\<in>set sections_order. map_of A n = map_of (section_addr po1) n"
      by simp
    have al: "armfw_bin2elf_get_sections_align (po1\<lparr>section_addr := A\<rparr>) sections_order
                = armfw_bin2elf_get_sections_align po1 sections_order"
      unfolding armfw_bin2elf_get_sections_align_def
      using agree1 by (rule get_sections_align_for_addr_cong)
    have ps: "armfw_bin2elf_get_sections_pos (po1\<lparr>section_addr := A\<rparr>) sections_order
                = armfw_bin2elf_get_sections_pos po1 sections_order"
      unfolding armfw_bin2elf_get_sections_pos_def
      using agree1 by (rule get_sections_pos_for_addr_cong)
    have bl: "armfw_bin2elf_update_elffile (po1\<lparr>section_addr := A\<rparr>) tmplt f sections_order sp sa
                = armfw_bin2elf_update_elffile po1 tmplt f sections_order sp sa" for sp sa
      unfolding armfw_bin2elf_update_elffile_def
      using update_elffile_for_addr_cong [OF agree1] by simp
    from Inr r o o' sizes al ps bl show ?thesis
      by (simp add: armfw_bin2elf_convert_def wl split: sum.splits)
  qed
qed

lemma armfw_bin2elf_convert_beyond_limit:
  assumes "distinct (map fst (section_addr po))"
    and "(n, a) \<in> set (section_addr po)" "limit < a"
    and "(m, b) \<in> set (section_addr po)" "a \<le> b"
  shows "\<exists>a0. snd (armfw_bin2elf_get_sections_order po limit) = [Beyond_Limit a0]
                \<and> limit < a0
                \<and> armfw_bin2elf_convert po fwpartfile tmplt limit =
                    (case armfw_bin2elf_convert (within_limit po limit) fwpartfile tmplt limit of
                       Inl e \<Rightarrow> Inl e
                     | Inr (elfobj, ws) \<Rightarrow> Inr (elfobj, Beyond_Limit a0 # ws))"
proof -
  from get_sections_order_beyond_limit [OF assms] obtain a0 where
    a0: "snd (armfw_bin2elf_get_sections_order po limit) = [Beyond_Limit a0]" "limit < a0"
    by blast
  have "armfw_bin2elf_convert po fwpartfile tmplt limit
          = (case armfw_bin2elf_convert (within_limit po limit) fwpartfile tmplt limit of
               Inl e \<Rightarrow> Inl e
             | Inr (elfobj, ws) \<Rightarrow> Inr (elfobj, Beyond_Limit a0 # ws))"
    unfolding armfw_bin2elf_convert_within [OF assms(1), of fwpartfile tmplt limit] a0(1)
    by (simp split: sum.splits)
  with a0 show ?thesis
    by blast
qed

text \<open>
  C9, as stated, with \<^verbatim>\<open>.bss\<close> overridden to \<open>0x100000000\<close> and a template that has
  a \<^verbatim>\<open>.bss\<close> section: the section is left out of the section order, and the output
  container still has a descriptor of that name.
\<close>

theorem armfw_bin2elf_beyond_limit_counterexample:
  "armfw_bin2elf_settle po_bss_beyond image_one_run = Some (Inr (po_bss_beyond_settled, []))
   \<and> (''.bss'', 0x100000000) \<in> set (section_addr po_bss_beyond_settled)
   \<and> (2 ^ 32 - 1 :: int) < 0x100000000
   \<and> ''.bss'' \<notin> set (fst (armfw_bin2elf_get_sections_order po_bss_beyond_settled (2 ^ 32 - 1)))
   \<and> (case armfw_bin2elf po_bss_beyond image_one_run tmplt_sections of
         Some (Inr (elfobj, ws)) \<Rightarrow> map name (sections elfobj)
       | _ \<Rightarrow> [])
       = [''.text'', ''.ARM.exidx'', ''.data'', ''.bss'']"
proof (intro conjI)
  show "armfw_bin2elf_settle po_bss_beyond image_one_run = Some (Inr (po_bss_beyond_settled, []))"
    by code_simp
  show "(''.bss'', 0x100000000) \<in> set (section_addr po_bss_beyond_settled)"
    by (simp add: po_bss_beyond_settled_def)
  show "(2 ^ 32 - 1 :: int) < 0x100000000"
    by simp
  show "''.bss'' \<notin> set (fst (armfw_bin2elf_get_sections_order po_bss_beyond_settled (2 ^ 32 - 1)))"
    by code_simp
  show "(case armfw_bin2elf po_bss_beyond image_one_run tmplt_sections of
         Some (Inr (elfobj, ws)) \<Rightarrow> map name (sections elfobj)
       | _ \<Rightarrow> [])
       = [''.text'', ''.ARM.exidx'', ''.data'', ''.bss'']"
    by code_simp
qed

text \<open>
  C9, amended: if a resolved section address exceeds \<open>2 ^ 32 - 1\<close>, that section and
  every section at a higher address are left out of the section order, with only the
  warning, and every section within the limit is kept. The conversion run does not abort
  because of such sections: it fails or succeeds, and builds the same container, exactly
  as the conversion of the resolved layout without them does. The builder neither updates
  nor creates a descriptor for them, so the descriptors of those names in the output
  container are exactly the template's (a template section of that name stays in the
  container).
\<close>

theorem armfw_bin2elf_beyond_limit:
  assumes "armfw_bin2elf_settle po0 fwpartfile = Some (Inr (po, w0))"
    and "distinct (map fst (section_addr po))"
    and "(n, a) \<in> set (section_addr po)" "2 ^ 32 - 1 < a"
    and "(m, b) \<in> set (section_addr po)" "a \<le> b"
  shows "n \<notin> set (fst (armfw_bin2elf_get_sections_order po (2 ^ 32 - 1)))
       \<and> m \<notin> set (fst (armfw_bin2elf_get_sections_order po (2 ^ 32 - 1)))
       \<and> (\<forall>k c. (k, c) \<in> set (section_addr po) \<and> c \<le> 2 ^ 32 - 1
               \<longrightarrow> k \<in> set (fst (armfw_bin2elf_get_sections_order po (2 ^ 32 - 1))))
       \<and> (\<exists>a0. snd (armfw_bin2elf_get_sections_order po (2 ^ 32 - 1)) = [Beyond_Limit a0]
                \<and> 2 ^ 32 - 1 < a0
                \<and> armfw_bin2elf po0 fwpartfile tmplt =
                    Some (case armfw_bin2elf_convert (within_limit po (2 ^ 32 - 1)) fwpartfile tmplt
                                 (2 ^ 32 - 1) of
                            Inl e \<Rightarrow> Inl e
                          | Inr (elfobj, ws) \<Rightarrow> Inr (elfobj, w0 @ Beyond_Limit a0 # ws)))
       \<and> (\<forall>elfobj ws. armfw_bin2elf po0 fwpartfile tmplt = Some (Inr (elfobj, ws))
               \<longrightarrow> filter (\<lambda>s. name s = n) (sections elfobj)
                     = filter (\<lambda>s. name s = n) (sections tmplt)
                   \<and> filter (\<lambda>s. name s = m) (sections elfobj)
                     = filter (\<lambda>s. name s = m) (sections tmplt))"
proof -
  define limit where "limit = (2 ^ 32 - 1 :: int)"
  have lim: "limit < a"
    using assms(4) by (simp only: limit_def)
  from get_sections_order_beyond_limit [OF assms(2,3) lim assms(5,6)] have
    n: "n \<notin> set (fst (armfw_bin2elf_get_sections_order po limit))"
    and m: "m \<notin> set (fst (armfw_bin2elf_get_sections_order po limit))"
    and kept: "\<forall>k c. (k, c) \<in> set (section_addr po) \<and> c \<le> limit
                 \<longrightarrow> k \<in> set (fst (armfw_bin2elf_get_sections_order po limit))"
    by blast+
  from armfw_bin2elf_convert_beyond_limit [OF assms(2,3) lim assms(5,6), of fwpartfile tmplt]
  obtain a0 where
    a0: "snd (armfw_bin2elf_get_sections_order po limit) = [Beyond_Limit a0]" "limit < a0"
    and conv: "armfw_bin2elf_convert po fwpartfile tmplt limit =
                 (case armfw_bin2elf_convert (within_limit po limit) fwpartfile tmplt limit of
                    Inl e \<Rightarrow> Inl e
                  | Inr (elfobj, ws) \<Rightarrow> Inr (elfobj, Beyond_Limit a0 # ws))"
    by blast
  have run: "armfw_bin2elf po0 fwpartfile tmplt
               = Some (case armfw_bin2elf_convert po fwpartfile tmplt limit of
                         Inl e \<Rightarrow> Inl e
                       | Inr (elfobj, ws) \<Rightarrow> Inr (elfobj, w0 @ ws))"
    by (simp only: armfw_bin2elf_def assms(1) limit_def option.case sum.case prod.case)
  have same: "armfw_bin2elf po0 fwpartfile tmplt =
                Some (case armfw_bin2elf_convert (within_limit po limit) fwpartfile tmplt limit of
                        Inl e \<Rightarrow> Inl e
                      | Inr (elfobj, ws) \<Rightarrow> Inr (elfobj, w0 @ Beyond_Limit a0 # ws))"
    unfolding run conv by (simp split: sum.splits)
  have untouched:
    "\<forall>elfobj ws. armfw_bin2elf po0 fwpartfile tmplt = Some (Inr (elfobj, ws))
       \<longrightarrow> filter (\<lambda>s. name s = n) (sections elfobj) = filter (\<lambda>s. name s = n) (sections tmplt)
           \<and> filter (\<lambda>s. name s = m) (sections elfobj) = filter (\<lambda>s. name s = m) (sections tmplt)"
  proof (intro allI impI)
    fix elfobj ws
    assume "armfw_bin2elf po0 fwpartfile tmplt = Some (Inr (elfobj, ws))"
    with run obtain ws' where c: "armfw_bin2elf_convert po fwpartfile tmplt limit = Inr (elfobj, ws')"
      by (auto split: sum.splits)
    from armfw_bin2elf_convert_untouched [OF c n] armfw_bin2elf_convert_untouched [OF c m]
    show "filter (\<lambda>s. name s = n) (sections elfobj) = filter (\<lambda>s. name s = n) (sections tmplt)
           \<and> filter (\<lambda>s. name s = m) (sections elfobj) = filter (\<lambda>s. name s = m) (sections tmplt)"
      by simp
  qed
  from n m kept a0 same untouched show ?thesis
    unfolding limit_def by blast
qed

theorem armfw_bin2elf_beyond_limit_witness:
  "''.bss'' \<notin> set (fst (armfw_bin2elf_get_sections_order po_bss_beyond_settled (2 ^ 32 - 1)))
   \<and> ''.text'' \<in> set (fst (armfw_bin2elf_get_sections_order po_bss_beyond_settled (2 ^ 32 - 1)))
   \<and> (\<exists>a0. snd (armfw_bin2elf_get_sections_order po_bss_beyond_settled (2 ^ 32 - 1))
              = [Beyond_Limit a0]
            \<and> 2 ^ 32 - 1 < a0
            \<and> armfw_bin2elf po_bss_beyond image_one_run tmplt_sections =
                Some (case armfw_bin2elf_convert (within_limit po_bss_beyond_settled (2 ^ 32 - 1))
                             image_one_run tmplt_sections (2 ^ 32 - 1) of
                        Inl e \<Rightarrow> Inl e
                      | Inr (elfobj, ws) \<Rightarrow> Inr (elfobj, [] @ Beyond_Limit a0 # ws)))"
proof -
  have 1: "armfw_bin2elf_settle po_bss_beyond image_one_run = Some (Inr (po_bss_beyond_settled, []))"
    by code_simp
  have 2: "distinct (map fst (section_addr po_bss_beyond_settled))"
    by (simp add: po_bss_beyond_settled_def po_default_def)
  have 3: "(''.bss'', 0x100000000) \<in> set (section_addr po_bss_beyond_settled)"
    by (simp add: po_bss_beyond_settled_def po_default_def)
  have 4: "(2 ^ 32 - 1 :: int) < 0x100000000"
    by simp
  have 5: "(0x100000000 :: int) \<le> 0x100000000"
    by simp
  have 6: "(''.text'', 0x1000000) \<in> set (section_addr po_bss_beyond_settled)
           \<and> (0x1000000 :: int) \<le> 2 ^ 32 - 1"
    by (simp add: po_bss_beyond_settled_def po_default_def)
  from armfw_bin2elf_beyond_limit [OF 1 2 3 4 3 5, of tmplt_sections] 6 show ?thesis
    by blast
qed

end
